theory Spec2Isabelle
  imports Main "HOL-Library.Sublist"
begin

section \<open>Strings\<close>

text \<open>
  A JavaScript string is modelled as a \<^typ>\<open>string\<close>, one \<^typ>\<open>char\<close> per code unit, so
  the code units are those from 0 to 255 (Latin-1). The character predicates below are
  the ECMAScript classes on these code units: \<open>\s\<close> (white space and line terminators,
  among them the no-break space), \<open>\d\<close> and \<open>\w\<close>.
\<close>

definition is_space :: "char \<Rightarrow> bool" where
  "is_space c = (c \<in> set [CHR '' '', CHR 0x09, CHR 0x0A, CHR 0x0B, CHR 0x0C, CHR 0x0D, CHR 0xA0])"

definition is_digit :: "char \<Rightarrow> bool" where
  "is_digit c = (c \<in> set ''0123456789'')"

definition is_lower :: "char \<Rightarrow> bool" where
  "is_lower c = (c \<in> set ''abcdefghijklmnopqrstuvwxyz'')"

definition is_upper :: "char \<Rightarrow> bool" where
  "is_upper c = (c \<in> set ''ABCDEFGHIJKLMNOPQRSTUVWXYZ'')"

definition is_word :: "char \<Rightarrow> bool" where
  "is_word c = (is_lower c \<or> is_upper c \<or> is_digit c \<or> c = CHR ''_'')"

text \<open>
  \<open>String.prototype.toLowerCase\<close>: the letters \<open>A\<close> to \<open>Z\<close> and the capital letters of
  Latin-1 (\<open>0xC0\<close> to \<open>0xDE\<close>, without the multiplication sign \<open>0xD7\<close>) have their small
  letter 32 code units further on; every other code unit stays.
\<close>

definition latin1_capitals :: string where
  "latin1_capitals =
     [CHR 0xC0, CHR 0xC1, CHR 0xC2, CHR 0xC3, CHR 0xC4, CHR 0xC5, CHR 0xC6, CHR 0xC7,
      CHR 0xC8, CHR 0xC9, CHR 0xCA, CHR 0xCB, CHR 0xCC, CHR 0xCD, CHR 0xCE, CHR 0xCF,
      CHR 0xD0, CHR 0xD1, CHR 0xD2, CHR 0xD3, CHR 0xD4, CHR 0xD5, CHR 0xD6,
      CHR 0xD8, CHR 0xD9, CHR 0xDA, CHR 0xDB, CHR 0xDC, CHR 0xDD, CHR 0xDE]"

definition latin1_smalls :: string where
  "latin1_smalls =
     [CHR 0xE0, CHR 0xE1, CHR 0xE2, CHR 0xE3, CHR 0xE4, CHR 0xE5, CHR 0xE6, CHR 0xE7,
      CHR 0xE8, CHR 0xE9, CHR 0xEA, CHR 0xEB, CHR 0xEC, CHR 0xED, CHR 0xEE, CHR 0xEF,
      CHR 0xF0, CHR 0xF1, CHR 0xF2, CHR 0xF3, CHR 0xF4, CHR 0xF5, CHR 0xF6,
      CHR 0xF8, CHR 0xF9, CHR 0xFA, CHR 0xFB, CHR 0xFC, CHR 0xFD, CHR 0xFE]"

definition lower_char :: "char \<Rightarrow> char" where
  "lower_char c =
     (case map_of (zip (''ABCDEFGHIJKLMNOPQRSTUVWXYZ'' @ latin1_capitals)
                       (''abcdefghijklmnopqrstuvwxyz'' @ latin1_smalls)) c of
        Some d \<Rightarrow> d
      | None \<Rightarrow> c)"

definition toLowerCase :: "string \<Rightarrow> string" where
  "toLowerCase s = map lower_char s"

text \<open>\<open>String.prototype.trim\<close>: white space is removed at both ends.\<close>

definition trim :: "string \<Rightarrow> string" where
  "trim s = rev (dropWhile is_space (rev (dropWhile is_space s)))"

text \<open>\<open>s.startsWith(t)\<close> and \<open>s.includes(t)\<close>.\<close>

fun startsWith :: "string \<Rightarrow> string \<Rightarrow> bool" where
  "startsWith s [] = True"
| "startsWith [] (y # ys) = False"
| "startsWith (x # xs) (y # ys) = (x = y \<and> startsWith xs ys)"

fun includes_str :: "string \<Rightarrow> string \<Rightarrow> bool" where
  "includes_str [] t = (t = [])"
| "includes_str (x # xs) t = (startsWith (x # xs) t \<or> includes_str xs t)"

text \<open>\<open>xs.indexOf(x)\<close>: the first index of \<open>x\<close>, or \<open>-1\<close>.\<close>

fun indexOf :: "'a list \<Rightarrow> 'a \<Rightarrow> int" where
  "indexOf [] x = -1"
| "indexOf (y # ys) x = (if y = x then 0 else (let i = indexOf ys x in if i < 0 then -1 else i + 1))"


text \<open>
  \<open>parseInt\<close> on a string of decimal digits (the only strings the program passes to it),
  and \<open>String(n)\<close> for a non-negative whole number.
\<close>

definition digit_val :: "char \<Rightarrow> int" where
  "digit_val c = indexOf ''0123456789'' c"

definition parseInt :: "string \<Rightarrow> int" where
  "parseInt s = foldl (\<lambda>acc c. 10 * acc + digit_val c) 0 s"

definition digit_char :: "nat \<Rightarrow> char" where
  "digit_char n = ''0123456789'' ! (n mod 10)"

function digits_of :: "nat \<Rightarrow> string" where
  "digits_of n = (if n < 10 then [digit_char n] else digits_of (n div 10) @ [digit_char n])"
  by pat_completeness auto
termination
  by (relation "measure (\<lambda>n. n)") auto

declare digits_of.simps [simp del]

definition String_of_int :: "int \<Rightarrow> string" where
  "String_of_int i = (if i < 0 then CHR ''-'' # digits_of (nat (- i)) else digits_of (nat i))"

text \<open>\<open>s.padStart(n, '0')\<close>.\<close>

definition padStart :: "nat \<Rightarrow> string \<Rightarrow> string" where
  "padStart n s = replicate (n - length s) CHR ''0'' @ s"

section \<open>Dates\<close>

text \<open>
  A \<open>Date\<close> is its time value: whole milliseconds since 1970-01-01T00:00:00Z. The
  functions are those of the ECMAScript specification (section "Date Objects"), with the
  same names. The local time zone is a fixed offset \<open>tz\<close> in minutes east of UTC
  (daylight saving changes are not modelled). Integer division in HOL rounds down, as
  \<open>floor\<close> does in the specification.
\<close>

definition msPerDay :: int where
  "msPerDay = 86400000"

definition Day :: "int \<Rightarrow> int" where
  "Day t = t div msPerDay"

definition TimeWithinDay :: "int \<Rightarrow> int" where
  "TimeWithinDay t = t mod msPerDay"

definition DaysInYear :: "int \<Rightarrow> int" where
  "DaysInYear y =
     (if y mod 4 \<noteq> 0 then 365 else if y mod 100 \<noteq> 0 then 366 else if y mod 400 \<noteq> 0 then 365 else 366)"

definition DayFromYear :: "int \<Rightarrow> int" where
  "DayFromYear y = 365 * (y - 1970) + (y - 1969) div 4 - (y - 1901) div 100 + (y - 1601) div 400"

text \<open>
  \<open>YearFromTime(t)\<close> is the largest year whose first day is not after \<open>t\<close>. The
  estimate from the mean length of a year is off by at most one
  (lemma \<open>YearFromDay_bounds\<close> below).
\<close>

definition YearFromDay :: "int \<Rightarrow> int" where
  "YearFromDay d =
     (let y = 1970 + (400 * d) div 146097 in
      if d < DayFromYear y then y - 1
      else if DayFromYear (y + 1) \<le> d then y + 1
      else y)"

definition YearFromTime :: "int \<Rightarrow> int" where
  "YearFromTime t = YearFromDay (Day t)"

definition InLeapYear :: "int \<Rightarrow> int" where
  "InLeapYear t = (if DaysInYear (YearFromTime t) = 366 then 1 else 0)"

definition DayWithinYear :: "int \<Rightarrow> int" where
  "DayWithinYear t = Day t - DayFromYear (YearFromTime t)"

text \<open>The day within the year on which month \<open>m\<close> (0 to 11) starts; \<open>l\<close> is 1 in a leap year.\<close>

definition month_start :: "int \<Rightarrow> int \<Rightarrow> int" where
  "month_start l m =
     (if m = 0 then 0 else if m = 1 then 31 else if m = 2 then 59 + l
      else if m = 3 then 90 + l else if m = 4 then 120 + l else if m = 5 then 151 + l
      else if m = 6 then 181 + l else if m = 7 then 212 + l else if m = 8 then 243 + l
      else if m = 9 then 273 + l else if m = 10 then 304 + l else 334 + l)"

definition MonthFromTime :: "int \<Rightarrow> int" where
  "MonthFromTime t =
     (let d = DayWithinYear t; l = InLeapYear t in
      if d < 31 then 0 else if d < 59 + l then 1 else if d < 90 + l then 2
      else if d < 120 + l then 3 else if d < 151 + l then 4 else if d < 181 + l then 5
      else if d < 212 + l then 6 else if d < 243 + l then 7 else if d < 273 + l then 8
      else if d < 304 + l then 9 else if d < 334 + l then 10 else 11)"

definition DateFromTime :: "int \<Rightarrow> int" where
  "DateFromTime t = DayWithinYear t - month_start (InLeapYear t) (MonthFromTime t) + 1"

definition WeekDay :: "int \<Rightarrow> int" where
  "WeekDay t = (Day t + 4) mod 7"

text \<open>
  \<open>MakeDay(year, month, date)\<close>: the month may lie outside 0 to 11 and the date outside
  the month; both carry over.
\<close>

definition MakeDay :: "int \<Rightarrow> int \<Rightarrow> int \<Rightarrow> int" where
  "MakeDay year month date =
     (let ym = year + month div 12; mn = month mod 12 in
      DayFromYear ym + month_start (if DaysInYear ym = 366 then 1 else 0) mn + date - 1)"

definition MakeDate :: "int \<Rightarrow> int \<Rightarrow> int" where
  "MakeDate day time = day * msPerDay + time"

definition LocalTime :: "int \<Rightarrow> int \<Rightarrow> int" where
  "LocalTime tz t = t + tz * 60000"

definition UTC :: "int \<Rightarrow> int \<Rightarrow> int" where
  "UTC tz t = t - tz * 60000"

definition getFullYear :: "int \<Rightarrow> int \<Rightarrow> int" where
  "getFullYear tz t = YearFromTime (LocalTime tz t)"

definition getMonth :: "int \<Rightarrow> int \<Rightarrow> int" where
  "getMonth tz t = MonthFromTime (LocalTime tz t)"

definition getDate :: "int \<Rightarrow> int \<Rightarrow> int" where
  "getDate tz t = DateFromTime (LocalTime tz t)"

definition getDay :: "int \<Rightarrow> int \<Rightarrow> int" where
  "getDay tz t = WeekDay (LocalTime tz t)"

text \<open>\<open>d.setDate(n)\<close>, returning the new time value.\<close>

definition setDate :: "int \<Rightarrow> int \<Rightarrow> int \<Rightarrow> int" where
  "setDate tz t n =
     (let lt = LocalTime tz t in
      UTC tz (MakeDate (MakeDay (YearFromTime lt) (MonthFromTime lt) n) (TimeWithinDay lt)))"

text \<open>\<open>new Date(year, monthIndex, day)\<close>: local midnight; a year from 0 to 99 means 1900 + year.\<close>

definition new_Date_ymd :: "int \<Rightarrow> int \<Rightarrow> int \<Rightarrow> int \<Rightarrow> int" where
  "new_Date_ymd tz year monthIndex day =
     (let yr = (if 0 \<le> year \<and> year \<le> 99 then 1900 + year else year) in
      UTC tz (MakeDate (MakeDay yr monthIndex day) 0))"

section \<open>Day-of-week references\<close>

definition days :: "string list" where
  "days = [''sunday'', ''monday'', ''tuesday'', ''wednesday'', ''thursday'', ''friday'', ''saturday'']"

text \<open>\<open>get_date_for_day_of_week\<close>; \<open>today\<close> is the value of \<open>new Date()\<close>.\<close>

definition get_date_for_day_of_week :: "int \<Rightarrow> int \<Rightarrow> string \<Rightarrow> string \<Rightarrow> int" where
  "get_date_for_day_of_week tz today day_name prefix_word =
     (let today_day = getDay tz today;
          target_day = indexOf days (toLowerCase day_name)
      in if target_day = -1 then today
         else
           let diff = (if prefix_word = ''this''
                       then (let d = target_day - today_day in if d < 0 then d + 7 else d)
                       else (let d = target_day - today_day in if d \<ge> 0 then d - 7 else d))
           in setDate tz today (getDate tz today + diff))"

section \<open>Regular expressions\<close>

text \<open>
  The regular expressions of the program are values of \<open>rx\<close>, and \<open>ms r st\<close> lists every
  way in which \<open>r\<close> can match at the state \<open>st\<close>, in the order in which a backtracking
  matcher tries them (ECMAScript, "Pattern Semantics"): the left alternative before the
  right one, the longer repetition before the shorter one. A state is the character before
  the position (none at the start of the input), the rest of the input, and the groups
  captured so far. As in ECMAScript, a repetition does not go round again after an
  iteration that matched the empty string.
\<close>

datatype rx =
    Cls "char \<Rightarrow> bool"
  | Eps
  | Seq rx rx
  | Alt rx rx
  | Star rx
  | Grp nat rx
  | Look rx
  | Bol
  | Eol
  | Eolm
  | Wb

type_synonym captures = "(nat \<times> string) list"

type_synonym mstate = "char option \<times> string \<times> captures"

text \<open>The line terminators among the code units from 0 to 255.\<close>

definition is_line_terminator :: "char \<Rightarrow> bool" where
  "is_line_terminator c = (c = CHR 0x0A \<or> c = CHR 0x0D)"

definition word_at :: "char option \<Rightarrow> bool" where
  "word_at pc = (case pc of None \<Rightarrow> False | Some c \<Rightarrow> is_word c)"

fun ms :: "rx \<Rightarrow> mstate \<Rightarrow> mstate list" where
  "ms (Cls p) (pv, s, c) = (case s of [] \<Rightarrow> [] | x # xs \<Rightarrow> if p x then [(Some x, xs, c)] else [])"
| "ms Eps st = [st]"
| "ms (Seq a b) st = concat (map (ms b) (ms a st))"
| "ms (Alt a b) st = ms a st @ ms b st"
| "ms (Star a) (pv, s, c) =
     concat (map (\<lambda>(pv', s', c'). if length s' < length s then ms (Star a) (pv', s', c') else [])
                 (ms a (pv, s, c)))
     @ [(pv, s, c)]"
| "ms (Grp n a) (pv, s, c) =
     map (\<lambda>(pv', s', c'). (pv', s', (n, take (length s - length s') s) # c')) (ms a (pv, s, c))"
| "ms (Look a) st = (if ms a st = [] then [] else [st])"
| "ms Bol (pv, s, c) = (if pv = None then [(pv, s, c)] else [])"
| "ms Eol (pv, s, c) = (if s = [] then [(pv, s, c)] else [])"
| "ms Eolm (pv, s, c) = (if s = [] \<or> is_line_terminator (hd s) then [(pv, s, c)] else [])"
| "ms Wb (pv, s, c) =
     (if word_at pv \<noteq> word_at (case s of [] \<Rightarrow> None | x # _ \<Rightarrow> Some x) then [(pv, s, c)] else [])"

text \<open>The pieces of the pattern syntax.\<close>

definition chr :: "char \<Rightarrow> rx" where
  "chr ch = Cls (\<lambda>x. x = ch)"

definition chr_i :: "char \<Rightarrow> rx" where
  "chr_i ch = Cls (\<lambda>x. lower_char x = lower_char ch)"

definition seqs :: "rx list \<Rightarrow> rx" where
  "seqs rs = foldr Seq rs Eps"

fun alts :: "rx list \<Rightarrow> rx" where
  "alts [] = Eps"
| "alts [r] = r"
| "alts (r # r' # rs) = Alt r (alts (r' # rs))"

definition lit :: "string \<Rightarrow> rx" where
  "lit s = seqs (map chr s)"

definition lit_i :: "string \<Rightarrow> rx" where
  "lit_i s = seqs (map chr_i s)"

definition plus_rx :: "rx \<Rightarrow> rx" where
  "plus_rx r = Seq r (Star r)"

definition opt_rx :: "rx \<Rightarrow> rx" where
  "opt_rx r = Alt r Eps"

fun times_rx :: "nat \<Rightarrow> rx \<Rightarrow> rx" where
  "times_rx 0 r = Eps"
| "times_rx (Suc n) r = Seq r (times_rx n r)"

fun upto_rx :: "nat \<Rightarrow> rx \<Rightarrow> rx" where
  "upto_rx 0 r = Eps"
| "upto_rx (Suc n) r = opt_rx (Seq r (upto_rx n r))"

text \<open>\<open>r{lo,hi}\<close>.\<close>

definition range_rx :: "nat \<Rightarrow> nat \<Rightarrow> rx \<Rightarrow> rx" where
  "range_rx lo hi r = Seq (times_rx lo r) (upto_rx (hi - lo) r)"

definition digit :: rx where
  "digit = Cls is_digit"

definition spaces :: rx where
  "spaces = plus_rx (Cls is_space)"

text \<open>
  The match that a backtracking matcher finds at a position is the first of the list.
\<close>

definition first_match :: "rx \<Rightarrow> mstate \<Rightarrow> mstate option" where
  "first_match r st = (case ms r st of [] \<Rightarrow> None | st' # _ \<Rightarrow> Some st')"

text \<open>
  \<open>rx_exec r pv s\<close> is the leftmost match of \<open>r\<close> in \<open>s\<close> (\<open>pv\<close> is the character before
  \<open>s\<close>): the text from the start of the match, and the state at its end. \<open>rx_test\<close> is
  \<open>r.test(s)\<close>, and \<open>rx_match\<close> gives the groups of \<open>s.match(r)\<close>, for a pattern without the
  \<open>g\<close> flag.
\<close>

fun rx_exec :: "rx \<Rightarrow> char option \<Rightarrow> string \<Rightarrow> (string \<times> mstate) option" where
  "rx_exec r pv [] = (case first_match r (pv, [], []) of Some st \<Rightarrow> Some ([], st) | None \<Rightarrow> None)"
| "rx_exec r pv (x # xs) =
     (case first_match r (pv, x # xs, []) of Some st \<Rightarrow> Some (x # xs, st) | None \<Rightarrow> rx_exec r (Some x) xs)"

definition rx_test :: "rx \<Rightarrow> string \<Rightarrow> bool" where
  "rx_test r s = (rx_exec r None s \<noteq> None)"

definition rx_match :: "rx \<Rightarrow> string \<Rightarrow> captures option" where
  "rx_match r s = (case rx_exec r None s of None \<Rightarrow> None | Some (_, _, _, c) \<Rightarrow> Some c)"

text \<open>\<open>match[n]\<close>: the text of group \<open>n\<close>, if the group took part in the match.\<close>

definition match_group :: "captures \<Rightarrow> nat \<Rightarrow> string option" where
  "match_group c n = map_of c n"

text \<open>
  The loop \<open>while ((match = r.exec(text)) !== null)\<close> for a pattern with the \<open>g\<close> flag: the
  captures of the successive matches, each search starting where the match before it
  ended. (After an empty match the loop of the program would not advance; the two
  patterns it is used with match at least two characters.)
\<close>

function exec_all :: "rx \<Rightarrow> char option \<Rightarrow> string \<Rightarrow> captures list" where
  "exec_all r pv s =
     (case first_match r (pv, s, []) of
        Some (pv', s', c) \<Rightarrow> if length s' < length s then c # exec_all r pv' s' else []
      | None \<Rightarrow> (case s of [] \<Rightarrow> [] | x # xs \<Rightarrow> exec_all r (Some x) xs))"
  by pat_completeness auto
termination
  by (relation "measure (\<lambda>(r, pv, s). length s)") auto

text \<open>
  \<open>s.replace(r, rep)\<close> for a pattern with the \<open>g\<close> flag and a replacement text without
  \<open>$\<close>: every match is replaced, and after an empty match the next character is kept.
\<close>

function replace_all :: "rx \<Rightarrow> string \<Rightarrow> char option \<Rightarrow> string \<Rightarrow> string" where
  "replace_all r rep pv s =
     (case first_match r (pv, s, []) of
        Some (pv', s', c) \<Rightarrow>
          if length s' < length s then rep @ replace_all r rep pv' s'
          else (case s of [] \<Rightarrow> rep | x # xs \<Rightarrow> rep @ x # replace_all r rep (Some x) xs)
      | None \<Rightarrow> (case s of [] \<Rightarrow> [] | x # xs \<Rightarrow> x # replace_all r rep (Some x) xs))"
  by pat_completeness auto
termination
  by (relation "measure (\<lambda>(r, rep, pv, s). length s)") auto

text \<open>\<open>s.split(sep)\<close> for a separator of one character.\<close>

fun split_chr :: "char \<Rightarrow> string \<Rightarrow> string list" where
  "split_chr sep [] = [[]]"
| "split_chr sep (x # xs) =
     (if x = sep then [] # split_chr sep xs
      else (case split_chr sep xs of p # ps \<Rightarrow> (x # p) # ps | [] \<Rightarrow> [[x]]))"

section \<open>Explicit date literals\<close>

text \<open>
  \<open>new Date(s)\<close> for a string \<open>s\<close> of the shape \<open>dddd-dd-dd\<close> (the only strings the
  program passes to it): a date-only form is read as UTC midnight. The month must be 01 to
  12 and the day 01 to 31, otherwise the time value is \<open>NaN\<close> (here \<open>None\<close>); a day past
  the end of its month carries over, as in V8, the engine of the host application.
\<close>

definition new_Date_iso :: "string \<Rightarrow> int option" where
  "new_Date_iso s =
     (let y = parseInt (take 4 s); m = parseInt (take 2 (drop 5 s)); d = parseInt (take 2 (drop 8 s))
      in if 1 \<le> m \<and> m \<le> 12 \<and> 1 \<le> d \<and> d \<le> 31 then Some (MakeDate (MakeDay y (m - 1) d) 0)
         else None)"

definition iso_date_rx :: rx where
  "iso_date_rx = seqs [Bol, times_rx 4 digit, chr CHR ''-'', times_rx 2 digit, chr CHR ''-'',
                       times_rx 2 digit, Eol]"

definition slash_date_rx :: rx where
  "slash_date_rx = seqs [Bol, range_rx 1 2 digit, chr CHR ''/'', range_rx 1 2 digit, chr CHR ''/'',
                         range_rx 2 4 digit, Eol]"

definition dash_date_rx :: rx where
  "dash_date_rx = seqs [Bol, range_rx 1 2 digit, chr CHR ''-'', range_rx 1 2 digit, chr CHR ''-'',
                        range_rx 2 4 digit, Eol]"

text \<open>
  The date built from the three parts of a \<open>M/D/Y\<close> or \<open>M-D-Y\<close> literal. The pattern that
  was tested before guarantees three parts.
\<close>

definition date_of_parts :: "int \<Rightarrow> string list \<Rightarrow> int option" where
  "date_of_parts tz parts =
     (case parts of
        [p0, p1, p2] \<Rightarrow>
          (let year = (if length p2 = 2 then 2000 + parseInt p2 else parseInt p2)
           in Some (new_Date_ymd tz year (parseInt p0 - 1) (parseInt p1)))
      | _ \<Rightarrow> None)"

text \<open>\<open>parse_date_string\<close>; \<open>None\<close> is \<open>null\<close>.\<close>

definition parse_date_string :: "int \<Rightarrow> string \<Rightarrow> int option" where
  "parse_date_string tz date_str =
     (if rx_test iso_date_rx date_str then new_Date_iso date_str
      else if rx_test slash_date_rx date_str then date_of_parts tz (split_chr CHR ''/'' date_str)
      else if rx_test dash_date_rx date_str then date_of_parts tz (split_chr CHR ''-'' date_str)
      else None)"

section \<open>The vault and the note locator\<close>

text \<open>
  The host application is seen through the list \<open>getMarkdownFiles()\<close> of the vault and the
  function \<open>vault.read\<close>, which can fail (\<open>None\<close> is a rejected promise).
\<close>

record TFile =
  basename :: string
  path :: string

record Vault =
  getMarkdownFiles :: "TFile list"
  read :: "TFile \<Rightarrow> string option"

text \<open>The objects \<open>{ name, content }\<close> that the program passes around.\<close>

record NamedContent =
  name :: string
  content :: string

text \<open>The four candidate names of \<open>find_daily_note\<close>, in the order of the array \<open>formats\<close>.\<close>

definition ymd_string :: "int \<Rightarrow> int \<Rightarrow> string" where
  "ymd_string tz date =
     String_of_int (getFullYear tz date) @ ''-'' @ padStart 2 (String_of_int (getMonth tz date + 1))
       @ ''-'' @ padStart 2 (String_of_int (getDate tz date))"

definition formats :: "int \<Rightarrow> int \<Rightarrow> string list" where
  "formats tz date =
     [ymd_string tz date,
      padStart 2 (String_of_int (getMonth tz date + 1)) @ ''-'' @ padStart 2 (String_of_int (getDate tz date))
        @ ''-'' @ String_of_int (getFullYear tz date),
      ''daily/'' @ ymd_string tz date,
      ''journal/'' @ ymd_string tz date]"

text \<open>
  \<open>file_map\<close>: the files are entered in order under their lower-cased basename, so of two
  files with the same key the later one stays.
\<close>

definition file_map :: "TFile list \<Rightarrow> (string \<rightharpoonup> TFile)" where
  "file_map fs = foldl (\<lambda>m f. m(toLowerCase (basename f) \<mapsto> f)) Map.empty fs"

text \<open>
  The loop over \<open>formats\<close>: a candidate that is in the map and can be read is returned; when
  the read fails the error is logged and the loop goes on with the next candidate.
\<close>

fun find_in_formats :: "Vault \<Rightarrow> (string \<rightharpoonup> TFile) \<Rightarrow> string list \<Rightarrow> NamedContent option" where
  "find_in_formats v m [] = None"
| "find_in_formats v m (format # rest) =
     (case m (toLowerCase format) of
        None \<Rightarrow> find_in_formats v m rest
      | Some matching_file \<Rightarrow>
          (case read v matching_file of
             Some text \<Rightarrow> Some \<lparr>name = basename matching_file, content = text\<rparr>
           | None \<Rightarrow> find_in_formats v m rest))"

definition find_daily_note :: "int \<Rightarrow> Vault \<Rightarrow> int \<Rightarrow> NamedContent option" where
  "find_daily_note tz v date = find_in_formats v (file_map (getMarkdownFiles v)) (formats tz date)"

section \<open>The temporal expression resolver\<close>

definition apostrophe :: rx where
  "apostrophe = Cls (\<lambda>x. x \<in> set [CHR 0x27, CHR 0x27])"

definition what_happened :: rx where
  "what_happened = seqs [lit_i ''what'', spaces,
                         alts [lit_i ''did'', lit_i ''happened'', lit_i ''occurred'', lit_i ''took place'']]"

definition yesterday_pattern :: rx where
  "yesterday_pattern = alts
     [seqs [what_happened, spaces, lit_i ''yesterday''],
      seqs [lit_i ''yesterday'', opt_rx apostrophe, lit_i ''s'', spaces,
            alts [lit_i ''events'', lit_i ''activities'', lit_i ''notes'', lit_i ''happenings'']],
      seqs [lit_i ''tell'', spaces, lit_i ''me'', spaces, lit_i ''about'', spaces, lit_i ''yesterday''],
      seqs [lit_i ''what'', spaces, alts [lit_i ''was'', lit_i ''did''], spaces,
            alts [lit_i ''i'', lit_i ''I''], spaces,
            alts [lit_i ''doing'', lit_i ''working on'', lit_i ''do''], spaces, lit_i ''yesterday'']]"

definition today_pattern :: rx where
  "today_pattern = alts
     [seqs [what_happened, spaces, lit_i ''today''],
      seqs [lit_i ''today'', opt_rx apostrophe, lit_i ''s'', spaces,
            alts [lit_i ''events'', lit_i ''activities'', lit_i ''notes'', lit_i ''happenings'']],
      seqs [lit_i ''tell'', spaces, lit_i ''me'', spaces, lit_i ''about'', spaces, lit_i ''today''],
      seqs [lit_i ''what'', spaces, alts [lit_i ''am'', lit_i ''was''], spaces,
            alts [lit_i ''i'', lit_i ''I''], spaces,
            alts [lit_i ''doing'', lit_i ''working on''], spaces, lit_i ''today'']]"

definition date_literal :: rx where
  "date_literal = alts
     [seqs [times_rx 4 digit, chr CHR ''-'', times_rx 2 digit, chr CHR ''-'', times_rx 2 digit],
      seqs [range_rx 1 2 digit, chr CHR ''/'', range_rx 1 2 digit,
            opt_rx (seqs [chr CHR ''/'', range_rx 2 4 digit])],
      seqs [range_rx 1 2 digit, chr CHR ''-'', range_rx 1 2 digit,
            opt_rx (seqs [chr CHR ''-'', range_rx 2 4 digit])]]"

definition specific_date_pattern :: rx where
  "specific_date_pattern = seqs
     [alts [seqs [what_happened, spaces, lit_i ''on''],
            seqs [lit_i ''tell'', spaces, lit_i ''me'', spaces, lit_i ''about''],
            seqs [lit_i ''what'', spaces, lit_i ''was'', spaces, alts [lit_i ''i'', lit_i ''I''], spaces,
                  alts [lit_i ''doing'', lit_i ''working on''], spaces, lit_i ''on'']],
      spaces,
      Grp 1 date_literal]"

definition day_of_week_pattern :: rx where
  "day_of_week_pattern = seqs
     [opt_rx (seqs [what_happened, spaces, alts [lit_i ''on'', lit_i ''last'', lit_i ''this'']]),
      spaces,
      opt_rx (Grp 1 (seqs [alts [lit_i ''last'', lit_i ''this'', lit_i ''on''], spaces])),
      Grp 2 (alts [lit_i ''monday'', lit_i ''tuesday'', lit_i ''wednesday'', lit_i ''thursday'',
                   lit_i ''friday'', lit_i ''saturday'', lit_i ''sunday''])]"

text \<open>
  The first half of \<open>check_time_related_query\<close>: the value of \<open>target_date\<close> after the chain
  of tests (\<open>None\<close> is \<open>null\<close>). \<open>now\<close> is the value of \<open>new Date()\<close>. A group counts only
  when it took part in the match and is not empty.
\<close>

definition truthy_group :: "captures option \<Rightarrow> nat \<Rightarrow> string option" where
  "truthy_group m n =
     (case m of None \<Rightarrow> None
      | Some c \<Rightarrow> (case match_group c n of None \<Rightarrow> None | Some g \<Rightarrow> if g = [] then None else Some g))"

definition target_date :: "int \<Rightarrow> int \<Rightarrow> string \<Rightarrow> int option" where
  "target_date tz now query =
     (if rx_test yesterday_pattern query then Some (setDate tz now (getDate tz now - 1))
      else if rx_test today_pattern query then Some now
      else if rx_test specific_date_pattern query then
        (case truthy_group (rx_match specific_date_pattern query) 1 of
           Some literal \<Rightarrow> parse_date_string tz literal
         | None \<Rightarrow> None)
      else if rx_test day_of_week_pattern query then
        (let m = rx_match day_of_week_pattern query in
         case truthy_group m 2 of
           Some day_name \<Rightarrow>
             (let prefix_word = (case truthy_group m 1 of Some p \<Rightarrow> toLowerCase (trim p) | None \<Rightarrow> ''last'')
              in Some (get_date_for_day_of_week tz now day_name prefix_word))
         | None \<Rightarrow> None)
      else None)"

text \<open>\<open>check_time_related_query\<close>: the list \<open>result\<close>.\<close>

definition check_time_related_query :: "int \<Rightarrow> int \<Rightarrow> Vault \<Rightarrow> string \<Rightarrow> NamedContent list" where
  "check_time_related_query tz now v query =
     (case target_date tz now query of
        None \<Rightarrow> []
      | Some date \<Rightarrow> (case find_daily_note tz v date of None \<Rightarrow> [] | Some daily_note \<Rightarrow> [daily_note]))"

section \<open>File references\<close>

text \<open>A JavaScript \<open>Set\<close> of strings keeps its elements in the order of their first insertion.\<close>

definition set_add :: "string list \<Rightarrow> string \<Rightarrow> string list" where
  "set_add xs x = (if x \<in> set xs then xs else xs @ [x])"

definition backtick_regex :: rx where
  "backtick_regex = seqs [chr CHR ''@'', chr CHR ''`'', Grp 1 (plus_rx (Cls (\<lambda>x. x \<noteq> CHR ''`''))), chr CHR ''`'']"

definition simple_char :: "char \<Rightarrow> bool" where
  "simple_char x = (\<not> is_space x \<and> x \<notin> set ''@`.,;!?'')"

definition simple_regex :: rx where
  "simple_regex = seqs [chr CHR ''@'', Grp 1 (plus_rx (Cls simple_char))]"

text \<open>The bodies of the two \<open>while\<close> loops of \<open>extractFileReferences\<close>.\<close>

definition add_backtick :: "string list \<Rightarrow> captures \<Rightarrow> string list" where
  "add_backtick mentions_set m =
     (case match_group m 1 of
        None \<Rightarrow> mentions_set
      | Some g \<Rightarrow> (let filename = trim g in if filename \<noteq> [] then set_add mentions_set filename else mentions_set))"

definition add_simple :: "string list \<Rightarrow> captures \<Rightarrow> string list" where
  "add_simple mentions_set m = (case match_group m 1 of None \<Rightarrow> mentions_set | Some g \<Rightarrow> set_add mentions_set g)"

definition extractFileReferences :: "string \<Rightarrow> string list" where
  "extractFileReferences text =
     (let mentions_set = foldl add_backtick [] (exec_all backtick_regex None text)
      in foldl add_simple mentions_set (exec_all simple_regex None text))"

text \<open>
  \<open>removeFileReferences\<close>. \<open>Array.prototype.sort\<close> is stable, as \<open>sort_key\<close> is. The pattern
  for a reference is built from the reference with every character that is special in a
  pattern escaped, so it matches the reference literally, without the \<open>i\<close> flag.
\<close>

definition backtick_mention :: rx where
  "backtick_mention = seqs [chr CHR ''@'', chr CHR ''`'', plus_rx (Cls (\<lambda>x. x \<noteq> CHR ''`'')), chr CHR ''`'']"

definition ref_regex :: "string \<Rightarrow> rx" where
  "ref_regex ref =
     seqs [chr CHR ''@'', lit ref, Look (alts [Cls is_space, Eol, Cls (\<lambda>x. x \<in> set ''.,;!?'')])]"

definition remove_ref :: "string \<Rightarrow> string \<Rightarrow> string \<Rightarrow> string" where
  "remove_ref text cleaned_text ref =
     (if includes_str text (''@`'' @ ref @ ''`'') then cleaned_text
      else replace_all (ref_regex ref) [] None cleaned_text)"

definition removeFileReferences :: "string \<Rightarrow> string" where
  "removeFileReferences text =
     (let cleaned_text = replace_all backtick_mention [] None text;
          extracted_refs = sort_key (\<lambda>ref. - int (length ref)) (extractFileReferences text);
          cleaned_text = foldl (remove_ref text) cleaned_text extracted_refs
      in trim (replace_all spaces '' '' None cleaned_text))"

section \<open>The message assembler\<close>

text \<open>
  The part of \<open>prepareMessage\<close> that fills \<open>includedFiles\<close> and builds \<open>displayText\<close>. The
  text for the model (\<open>apiText\<close>), the notices and the console output are left out.
\<close>

definition same_name :: "string \<Rightarrow> string \<Rightarrow> bool" where
  "same_name a b = (toLowerCase a = toLowerCase b)"

definition read_named :: "Vault \<Rightarrow> TFile \<Rightarrow> NamedContent list" where
  "read_named v f = (case read v f of Some text \<Rightarrow> [\<lparr>name = basename f, content = text\<rparr>] | None \<Rightarrow> [])"

text \<open>One round of the loop over \<open>fileReferences\<close>: the exact match, then the fuzzy match.\<close>

definition resolve_reference :: "Vault \<Rightarrow> string \<Rightarrow> NamedContent list" where
  "resolve_reference v fileName =
     (case find (\<lambda>f. same_name (basename f) fileName) (getMarkdownFiles v) of
        Some file \<Rightarrow> read_named v file
      | None \<Rightarrow>
          (case find (\<lambda>f. includes_str (toLowerCase (basename f)) (toLowerCase fileName)
                          \<or> includes_str (toLowerCase fileName) (toLowerCase (basename f)))
                     (getMarkdownFiles v) of
             Some fuzzy_match \<Rightarrow> read_named v fuzzy_match
           | None \<Rightarrow> []))"

definition time_related_part :: "int \<Rightarrow> int \<Rightarrow> Vault \<Rightarrow> string \<Rightarrow> NamedContent list" where
  "time_related_part tz now v userInput =
     filter (\<lambda>file. \<not> list_ex (\<lambda>ref. same_name ref (name file)) (extractFileReferences userInput))
            (check_time_related_query tz now v userInput)"

definition explicit_part :: "Vault \<Rightarrow> string \<Rightarrow> NamedContent list" where
  "explicit_part v userInput = concat (map (resolve_reference v) (extractFileReferences userInput))"

text \<open>
  The current file is added when the setting is on, there is an active file, its content
  could be read and is not empty, and no reference names it.
\<close>

definition current_part :: "bool \<Rightarrow> TFile option \<Rightarrow> Vault \<Rightarrow> string \<Rightarrow> NamedContent list" where
  "current_part includeCurrentFile activeFile v userInput =
     (if includeCurrentFile then
        (case activeFile of
           None \<Rightarrow> []
         | Some currentFile \<Rightarrow>
             (case read v currentFile of
                None \<Rightarrow> []
              | Some fileContent \<Rightarrow>
                  if fileContent \<noteq> [] \<and>
                     \<not> list_ex (\<lambda>ref. same_name ref (basename currentFile)) (extractFileReferences userInput)
                  then [\<lparr>name = basename currentFile, content = fileContent\<rparr>]
                  else []))
      else [])"

definition includedFiles :: "int \<Rightarrow> int \<Rightarrow> bool \<Rightarrow> TFile option \<Rightarrow> Vault \<Rightarrow> string \<Rightarrow> NamedContent list" where
  "includedFiles tz now includeCurrentFile activeFile v userInput =
     time_related_part tz now v userInput @ explicit_part v userInput
       @ current_part includeCurrentFile activeFile v userInput"

datatype DisplayText = Plain string | WithFiles string "string list"

definition displayText :: "int \<Rightarrow> int \<Rightarrow> bool \<Rightarrow> TFile option \<Rightarrow> Vault \<Rightarrow> string \<Rightarrow> DisplayText" where
  "displayText tz now includeCurrentFile activeFile v userInput =
     (let fs = includedFiles tz now includeCurrentFile activeFile v userInput
      in if fs \<noteq> [] then WithFiles (removeFileReferences userInput) (map name fs) else Plain userInput)"

section \<open>The keyword summary\<close>

text \<open>\<open>s.split(/\s+/)\<close>: white space at either end of \<open>s\<close> leaves an empty string there.\<close>

function split_spaces :: "string \<Rightarrow> string list" where
  "split_spaces [] = [[]]"
| "split_spaces (x # xs) =
     (if is_space x then [] # split_spaces (dropWhile is_space xs)
      else (case split_spaces xs of p # ps \<Rightarrow> (x # p) # ps | [] \<Rightarrow> [[x]]))"
  by pat_completeness auto
termination
  by (relation "measure length") (auto simp: length_dropWhile_le less_Suc_eq_le)
















section \<open>Sending a message\<close>

datatype Role = User | Assistant

type_synonym Turn = "Role \<times> string"

text \<open>What \<open>saveData\<close> has written: the three fields that \<open>save_chat_history\<close> sets.\<close>

record SavedData =
  chat_history :: "Turn list"
  saved_conversation_id :: string
  saved_awaiting_user_response :: bool

text \<open>
  The fields of the view that take part, and \<open>stored\<close>, the plugin data on disk (\<open>None\<close>
  before the first save).
\<close>

record ViewState =
  chatHistory :: "Turn list"
  conversation_id :: string
  awaiting_user_response :: bool
  stored :: "SavedData option"

text \<open>\<open>save_chat_history\<close> of the view (reading and writing the plugin data do not fail here).\<close>

definition save_chat_history :: "ViewState \<Rightarrow> ViewState" where
  "save_chat_history st =
     st\<lparr>stored := Some \<lparr>chat_history = chatHistory st,
                          saved_conversation_id = conversation_id st,
                          saved_awaiting_user_response = awaiting_user_response st\<rparr>\<rparr>"

definition onClose :: "ViewState \<Rightarrow> ViewState" where
  "onClose st = save_chat_history st"

definition question_patterns :: "rx list" where
  "question_patterns =
     [seqs [chr CHR ''?'', Star (Cls is_space), Eolm],
      alts [seqs [Wb, lit_i ''what'', Wb], seqs [Wb, lit_i ''how'', Wb], seqs [Wb, lit_i ''why'', Wb],
            seqs [Wb, lit_i ''when'', Wb], seqs [Wb, lit_i ''where'', Wb], seqs [Wb, lit_i ''which'', Wb]],
      alts [seqs [Wb, lit_i ''can you'', Wb], seqs [Wb, lit_i ''could you'', Wb],
            seqs [Wb, lit_i ''would you'', Wb]],
      lit_i ''let me know'',
      seqs [Wb, lit_i ''thoughts'', Wb]]"

definition detect_question_in_response :: "string \<Rightarrow> bool" where
  "detect_question_in_response text = list_ex (\<lambda>pattern. rx_test pattern text) question_patterns"

text \<open>\<open>s.split(sep)\<close> for a separator that is not empty.\<close>

function split_str :: "string \<Rightarrow> string \<Rightarrow> string list" where
  "split_str sep [] = [[]]"
| "split_str sep (x # xs) =
     (if sep \<noteq> [] \<and> startsWith (x # xs) sep then [] # split_str sep (drop (length sep) (x # xs))
      else (case split_str sep xs of p # ps \<Rightarrow> (x # p) # ps | [] \<Rightarrow> [[x]]))"
  by pat_completeness auto
termination
  by (relation "measure (\<lambda>(sep, s). length s)") auto

text \<open>
  The answer of the service, as far as the program looks at it: a failure (the request
  itself fails, the status is not \<open>ok\<close>, or the body is not of the expected shape), with
  the message of the error, or the content of the first choice.
\<close>

datatype ApiResult = ApiFailure string | ApiSuccess string

text \<open>The content that is kept; for a reasoning model the part before \<open></think>\<close> is cut off.\<close>

definition answer_content :: "string \<Rightarrow> string \<Rightarrow> string" where
  "answer_content currentModel raw =
     (if includes_str currentModel ''reasoning'' \<and> includes_str raw ''<think>''
      then (case split_str ''</think>'' raw of p0 # p1 # _ \<Rightarrow> trim p1 | _ \<Rightarrow> raw)
      else raw)"

text \<open>
  \<open>sendToPerplexity\<close>. The result is the field \<open>content\<close> of the object that the function
  returns and the notices it shows, with the new state of the view. \<open>fresh_id\<close> is what
  \<open>generate_conversation_id\<close> would give. The promise is never rejected: the \<open>catch\<close>
  clause turns every failure into a notice and the result \<open>{ content: '' }\<close>.
\<close>

definition sendToPerplexity ::
  "string \<Rightarrow> string \<Rightarrow> string \<Rightarrow> ApiResult \<Rightarrow> string \<Rightarrow> ViewState \<Rightarrow> (string \<times> string list) \<times> ViewState" where
  "sendToPerplexity apiKey currentModel fresh_id api message st =
     (if apiKey = [] then (([], [''Please set your Perplexity API key in settings'']), st)
      else
        let st1 = (if conversation_id st = [] then st\<lparr>conversation_id := fresh_id\<rparr> else st);
            st2 = st1\<lparr>chatHistory := chatHistory st1 @ [(User, message)]\<rparr>
        in case api of
             ApiFailure error_message \<Rightarrow> (([], [''Error: '' @ error_message]), st2)
           | ApiSuccess raw \<Rightarrow>
               (let text = answer_content currentModel raw;
                    st3 = st2\<lparr>awaiting_user_response := detect_question_in_response text\<rparr>;
                    st4 = st3\<lparr>chatHistory := chatHistory st3 @ [(Assistant, text)]\<rparr>
                in ((text, []), save_chat_history st4)))"

section \<open>Properties of the date functions\<close>

lemma setDate_shift: "setDate tz t (getDate tz t + k) = t + k * msPerDay"
proof -
  define lt where "lt = LocalTime tz t"
  have day: "MakeDay (YearFromTime lt) (MonthFromTime lt) (DateFromTime lt + k) = Day lt + k"
  proof -
    have m: "0 \<le> MonthFromTime lt \<and> MonthFromTime lt < 12"
      by (simp add: MonthFromTime_def Let_def)
    then have "MonthFromTime lt div 12 = 0" "MonthFromTime lt mod 12 = MonthFromTime lt"
      by simp_all
    then show ?thesis
      by (simp add: MakeDay_def DateFromTime_def DayWithinYear_def InLeapYear_def Let_def)
  qed
  have "Day lt * msPerDay + TimeWithinDay lt = lt"
    by (simp add: Day_def TimeWithinDay_def)
  then have "MakeDate (Day lt + k) (TimeWithinDay lt) = lt + k * msPerDay"
    by (simp add: MakeDate_def algebra_simps)
  with day show ?thesis
    by (simp add: setDate_def getDate_def lt_def [symmetric] Let_def)
       (simp add: UTC_def lt_def LocalTime_def)
qed

lemma getDay_range: "0 \<le> getDay tz t \<and> getDay tz t < 7"
  by (simp add: getDay_def WeekDay_def)

lemma getDay_shift: "getDay tz (t + k * msPerDay) = (getDay tz t + k) mod 7"
proof -
  have "(t + k * msPerDay + tz * 60000) div msPerDay = (t + tz * 60000) div msPerDay + k"
    by (simp add: msPerDay_def)
  then show ?thesis
    by (simp add: getDay_def WeekDay_def Day_def LocalTime_def mod_simps algebra_simps)
qed

lemma indexOf_range: "indexOf xs x = -1 \<or> (0 \<le> indexOf xs x \<and> indexOf xs x < int (length xs))"
  by (induction xs) (auto simp: Let_def)

section \<open>Properties of the note locator\<close>

lemma find_in_formats_eq:
  "find_in_formats v m fmts =
     (case filter (\<lambda>f. read v f \<noteq> None) (List.map_filter (\<lambda>fmt. m (toLowerCase fmt)) fmts) of
        [] \<Rightarrow> None
      | f # _ \<Rightarrow> Some \<lparr>name = basename f, content = the (read v f)\<rparr>)"
  by (induction fmts) (auto simp: List.map_filter_simps split: option.splits)

lemma file_map_Some:
  "file_map fs k = Some f \<Longrightarrow> f \<in> set fs \<and> toLowerCase (basename f) = k"
proof -
  have "foldl (\<lambda>m f. m(toLowerCase (basename f) \<mapsto> f)) m0 fs k = Some f \<Longrightarrow>
        (f \<in> set fs \<and> toLowerCase (basename f) = k) \<or> m0 k = Some f" for m0
    by (induction fs arbitrary: m0) (fastforce split: if_splits)+
  then show "file_map fs k = Some f \<Longrightarrow> f \<in> set fs \<and> toLowerCase (basename f) = k"
    unfolding file_map_def by fastforce
qed

lemma file_map_None:
  "file_map fs k = None \<longleftrightarrow> k \<notin> set (map (\<lambda>f. toLowerCase (basename f)) fs)"
proof -
  have "foldl (\<lambda>m f. m(toLowerCase (basename f) \<mapsto> f)) m0 fs k = None \<longleftrightarrow>
        k \<notin> set (map (\<lambda>f. toLowerCase (basename f)) fs) \<and> m0 k = None" for m0
    by (induction fs arbitrary: m0) auto
  then show ?thesis unfolding file_map_def by simp
qed

section \<open>Evaluation\<close>

text \<open>The defining equations that evaluate dates and strings on concrete values.\<close>

lemmas date_eval = getFullYear_def getMonth_def getDate_def getDay_def WeekDay_def YearFromTime_def
  MonthFromTime_def DateFromTime_def DayWithinYear_def InLeapYear_def YearFromDay_def DayFromYear_def
  DaysInYear_def Day_def TimeWithinDay_def LocalTime_def UTC_def MakeDay_def MakeDate_def month_start_def
  msPerDay_def Let_def

lemmas string_eval = String_of_int_def digits_of.simps digit_char_def padStart_def toLowerCase_def
  lower_char_def latin1_capitals_def latin1_smalls_def

text \<open>The time value \<open>1704412800000\<close> is 2024-01-05T00:00:00Z, a Friday.\<close>

lemma parts_5_Jan_2024:
  "getFullYear 0 1704412800000 = 2024" "getMonth 0 1704412800000 = 0" "getDate 0 1704412800000 = 5"
  "getDay 0 1704412800000 = 5"
  by (simp_all add: date_eval)

lemma formats_5_Jan_2024:
  "formats 0 1704412800000 = [''2024-01-05'', ''01-05-2024'', ''daily/2024-01-05'', ''journal/2024-01-05'']"
  by (simp add: formats_def ymd_string_def string_eval parts_5_Jan_2024)

section \<open>Properties of the matcher\<close>

text \<open>
  The equation for a repetition mentions the repetition again; it is applied by hand.
\<close>

declare ms.simps(5) [simp del]




lemma suffix_set: "suffix s' s \<Longrightarrow> set s' \<subseteq> set s"
  by (auto simp: suffix_def)

text \<open>Sequences, and a repetition of a character class.\<close>

lemma ms_seqs_Cons: "ms (seqs (r # rs)) st = concat (map (ms (seqs rs)) (ms r st))"
  by (simp add: seqs_def)

lemma ms_seqs_Nil: "ms (seqs []) st = [st]"
  by (simp add: seqs_def)

lemma ms_chr: "ms (chr ch) (pv, s, c) = (case s of [] \<Rightarrow> [] | x # xs \<Rightarrow> if x = ch then [(Some x, xs, c)] else [])"
  by (simp add: chr_def)

lemma ms_Star_Cls_Nil: "ms (Star (Cls p)) (pv, [], c) = [(pv, [], c)]"
  by (subst ms.simps(5)) simp

lemma ms_Star_Cls_Cons:
  "ms (Star (Cls p)) (pv, x # xs, c)
     = (if p x then ms (Star (Cls p)) (Some x, xs, c) else []) @ [(pv, x # xs, c)]"
  by (subst ms.simps(5)) simp

text \<open>The character before the position after the text \<open>w\<close> has been read.\<close>

definition prev_after :: "char option \<Rightarrow> string \<Rightarrow> char option" where
  "prev_after pv w = (if w = [] then pv else Some (last w))"

lemma prev_after_Cons: "prev_after pv (x # w) = prev_after (Some x) w"
  by (simp add: prev_after_def)

text \<open>A repetition is greedy: its first match takes the longest run.\<close>

lemma first_match_Star_Cls:
  "first_match (Star (Cls p)) (pv, s, c) = Some (prev_after pv (takeWhile p s), dropWhile p s, c)"
proof (induction s arbitrary: pv)
  case Nil
  then show ?case by (simp add: first_match_def prev_after_def ms_Star_Cls_Nil)
next
  case (Cons x xs)
  show ?case
  proof (cases "p x")
    case True
    from Cons [of "Some x"] obtain rest where
      "ms (Star (Cls p)) (Some x, xs, c) = (prev_after (Some x) (takeWhile p xs), dropWhile p xs, c) # rest"
      by (auto simp: first_match_def split: list.splits)
    with True show ?thesis
      by (simp add: first_match_def ms_Star_Cls_Cons prev_after_Cons)
  next
    case False
    then show ?thesis
      by (simp add: first_match_def ms_Star_Cls_Cons prev_after_def)
  qed
qed

lemma first_match_plus_rx_Cls:
  "first_match (plus_rx (Cls p)) (pv, s, c)
     = (case s of [] \<Rightarrow> None
        | x # xs \<Rightarrow> if p x then Some (prev_after pv (takeWhile p s), dropWhile p s, c) else None)"
proof (cases s)
  case Nil
  then show ?thesis by (simp add: first_match_def plus_rx_def)
next
  case (Cons x xs)
  show ?thesis
  proof (cases "p x")
    case True
    have "first_match (plus_rx (Cls p)) (pv, s, c) = first_match (Star (Cls p)) (Some x, xs, c)"
      using Cons True by (simp add: first_match_def plus_rx_def)
    with Cons True show ?thesis
      by (simp add: first_match_Star_Cls prev_after_Cons)
  next
    case False
    with Cons show ?thesis by (simp add: first_match_def plus_rx_def)
  qed
qed

text \<open>A repetition of a class, followed by a character outside the class.\<close>

lemma ms_Star_Cls_then_chr:
  assumes "\<not> p ch"
  shows "concat (map (ms (seqs [chr ch])) (ms (Star (Cls p)) (pv, s, c)))
           = (case dropWhile p s of [] \<Rightarrow> [] | y # ys \<Rightarrow> if y = ch then [(Some y, ys, c)] else [])"
proof (induction s arbitrary: pv)
  case Nil
  then show ?case by (simp add: seqs_def ms_chr ms_Star_Cls_Nil)
next
  case (Cons x xs)
  show ?case
  proof (cases "p x")
    case True
    with assms have "x \<noteq> ch" by auto
    with True Cons [of "Some x"] show ?thesis
      by (simp add: ms_Star_Cls_Cons seqs_def ms_chr)
  next
    case False
    then show ?thesis
      by (simp add: ms_Star_Cls_Cons seqs_def ms_chr)
  qed
qed

text \<open>A literal text.\<close>

lemma ms_lit:
  "ms (lit w) (pv, s, c) = (if prefix w s then [(prev_after pv w, drop (length w) s, c)] else [])"
proof (induction w arbitrary: pv s)
  case Nil
  then show ?case by (simp add: lit_def seqs_def prev_after_def)
next
  case (Cons x w)
  have "ms (lit (x # w)) (pv, s, c) = concat (map (ms (lit w)) (ms (chr x) (pv, s, c)))"
    by (simp add: lit_def seqs_def)
  then show ?case
    using Cons by (cases s) (auto simp: ms_chr prev_after_Cons)
qed

text \<open>The first match of a sequence that starts with a character, and of a group.\<close>

lemma first_match_seqs_chr:
  "first_match (seqs (chr ch # rs)) (pv, s, c)
     = (case s of [] \<Rightarrow> None
        | x # xs \<Rightarrow> if x = ch then first_match (seqs rs) (Some x, xs, c) else None)"
  by (cases s) (simp_all add: first_match_def ms_seqs_Cons ms_chr)

lemma concat_ms_Eps: "concat (map (ms Eps) xs) = xs"
  by (induction xs) simp_all

lemma ms_Seq_Eps: "ms (Seq r Eps) = ms r"
  by (rule ext) (simp add: concat_ms_Eps)

lemma ms_seqs_single: "ms (seqs [r]) st = ms r st"
  by (simp add: seqs_def concat_ms_Eps)

lemma first_match_seqs_single: "first_match (seqs [r]) st = first_match r st"
  by (simp add: first_match_def ms_seqs_single)

lemma first_match_Grp:
  "first_match (Grp n r) (pv, s, c)
     = (case first_match r (pv, s, c) of
          None \<Rightarrow> None
        | Some (pv', s', c') \<Rightarrow> Some (pv', s', (n, take (length s - length s') s) # c'))"
  by (simp add: first_match_def split: list.splits)

lemma take_takeWhile: "take (length s - length (dropWhile p s)) s = takeWhile p s"
proof -
  have "length s - length (dropWhile p s) = length (takeWhile p s)"
    by (metis add_diff_cancel_right' length_append takeWhile_dropWhile_id)
  then show ?thesis
    by (metis append_eq_conv_conj takeWhile_dropWhile_id)
qed

lemma first_match_plus_rx_Cls_hd:
  "first_match (plus_rx (Cls p)) (pv, s, c)
     = (if s \<noteq> [] \<and> p (hd s) then Some (Some (last (takeWhile p s)), dropWhile p s, c) else None)"
  by (cases s) (simp_all add: first_match_plus_rx_Cls prev_after_def)

text \<open>The pattern of a bare mention.\<close>

lemma first_match_simple_regex:
  "first_match simple_regex (pv, s, [])
     = (case s of
          [] \<Rightarrow> None
        | x # xs \<Rightarrow>
            if x = CHR ''@'' \<and> xs \<noteq> [] \<and> simple_char (hd xs)
            then Some (Some (last (takeWhile simple_char xs)), dropWhile simple_char xs,
                       [(1, takeWhile simple_char xs)])
            else None)"
proof (cases s)
  case Nil
  then show ?thesis by (simp add: simple_regex_def first_match_seqs_chr)
next
  case (Cons x xs)
  have "first_match (seqs [Grp 1 (plus_rx (Cls simple_char))]) (Some x, xs, [])
          = (if xs \<noteq> [] \<and> simple_char (hd xs)
             then Some (Some (last (takeWhile simple_char xs)), dropWhile simple_char xs,
                        [(1, takeWhile simple_char xs)])
             else None)"
    unfolding first_match_seqs_single first_match_Grp first_match_plus_rx_Cls_hd
    by (simp only: take_takeWhile option.case prod.case if_distrib [of "case_option _ _"] cong: if_cong)
  with Cons show ?thesis
    by (simp only: simple_regex_def first_match_seqs_chr list.case) simp
qed

text \<open>
  A repetition of a class in a group, followed by a character outside the class: only
  the longest run can be followed by that character.
\<close>

lemma ms_Star_Cls_then_chr_cap:
  assumes "\<not> p ch"
  shows "concat (map (\<lambda>(pv', s', c'). ms (chr ch) (pv', s', f s' c')) (ms (Star (Cls p)) (pv, s, c)))
           = (case dropWhile p s of [] \<Rightarrow> [] | y # ys \<Rightarrow> if y = ch then [(Some y, ys, f (y # ys) c)] else [])"
proof (induction s arbitrary: pv)
  case Nil
  then show ?case by (simp add: ms_chr ms_Star_Cls_Nil)
next
  case (Cons x xs)
  show ?case
  proof (cases "p x")
    case True
    with assms have "x \<noteq> ch" by auto
    with True Cons [of "Some x"] show ?thesis
      by (simp add: ms_Star_Cls_Cons ms_chr)
  next
    case False
    then show ?thesis
      by (simp add: ms_Star_Cls_Cons ms_chr)
  qed
qed

lemma ms_Grp_plus_then_chr:
  assumes "\<not> p ch"
  shows "ms (seqs [Grp n (plus_rx (Cls p)), chr ch]) (pv, s, c)
           = (if s \<noteq> [] \<and> p (hd s) \<and> dropWhile p s \<noteq> [] \<and> hd (dropWhile p s) = ch
              then [(Some ch, tl (dropWhile p s), (n, takeWhile p s) # c)]
              else [])"
proof (cases s)
  case Nil
  then show ?thesis by (simp add: ms_seqs_Cons plus_rx_def)
next
  case (Cons x xs)
  show ?thesis
  proof (cases "p x")
    case False
    with Cons show ?thesis by (simp add: ms_seqs_Cons plus_rx_def)
  next
    case True
    let ?f = "\<lambda>s' c'. (n, take (length s - length s') s) # c'"
    have "ms (seqs [Grp n (plus_rx (Cls p)), chr ch]) (pv, s, c)
            = concat (map (ms (chr ch)) (ms (Grp n (plus_rx (Cls p))) (pv, s, c)))"
      by (simp add: seqs_def ms_Seq_Eps)
    also have "\<dots> = concat (map (\<lambda>(pv', s', c'). ms (chr ch) (pv', s', ?f s' c'))
                          (ms (Star (Cls p)) (Some x, xs, c)))"
      using Cons True by (simp add: plus_rx_def comp_def case_prod_unfold)
    also have "\<dots> = (case dropWhile p xs of [] \<Rightarrow> []
                      | y # ys \<Rightarrow> if y = ch then [(Some y, ys, ?f (y # ys) c)] else [])"
      using assms by (rule ms_Star_Cls_then_chr_cap [where f = ?f and p = p and ch = ch])
    finally have eq: "ms (seqs [Grp n (plus_rx (Cls p)), chr ch]) (pv, s, c)
                        = (case dropWhile p xs of [] \<Rightarrow> []
                           | y # ys \<Rightarrow> if y = ch then [(Some y, ys, ?f (y # ys) c)] else [])" .
    have d: "dropWhile p s = dropWhile p xs" "s \<noteq> []" "p (hd s)"
      using Cons True by simp_all
    show ?thesis
    proof (cases "dropWhile p xs")
      case Nil
      with eq d show ?thesis by simp
    next
      case (Cons y ys)
      with take_takeWhile [of s p] d have "take (length s - length (y # ys)) s = takeWhile p s"
        by simp
      with eq d Cons show ?thesis by auto
    qed
  qed
qed

lemma ms_plus_then_chr:
  assumes "\<not> p ch"
  shows "ms (seqs [plus_rx (Cls p), chr ch]) (pv, s, c)
           = (if s \<noteq> [] \<and> p (hd s) \<and> dropWhile p s \<noteq> [] \<and> hd (dropWhile p s) = ch
              then [(Some ch, tl (dropWhile p s), c)]
              else [])"
proof (cases s)
  case Nil
  then show ?thesis by (simp add: ms_seqs_Cons plus_rx_def)
next
  case (Cons x xs)
  show ?thesis
  proof (cases "p x")
    case False
    with Cons show ?thesis by (simp add: ms_seqs_Cons plus_rx_def)
  next
    case True
    let ?f = "\<lambda>(s' :: string) (c' :: captures). c'"
    have "ms (seqs [plus_rx (Cls p), chr ch]) (pv, s, c)
            = concat (map (ms (chr ch)) (ms (plus_rx (Cls p)) (pv, s, c)))"
      by (simp add: seqs_def ms_Seq_Eps)
    also have "\<dots> = concat (map (\<lambda>(pv', s', c'). ms (chr ch) (pv', s', ?f s' c'))
                          (ms (Star (Cls p)) (Some x, xs, c)))"
      using Cons True by (simp add: plus_rx_def case_prod_unfold)
    also have "\<dots> = (case dropWhile p xs of [] \<Rightarrow> []
                      | y # ys \<Rightarrow> if y = ch then [(Some y, ys, ?f (y # ys) c)] else [])"
      using assms by (rule ms_Star_Cls_then_chr_cap [where f = ?f and p = p and ch = ch])
    finally have eq: "ms (seqs [plus_rx (Cls p), chr ch]) (pv, s, c)
                        = (case dropWhile p xs of [] \<Rightarrow> []
                           | y # ys \<Rightarrow> if y = ch then [(Some y, ys, c)] else [])" .
    have d: "dropWhile p s = dropWhile p xs" "s \<noteq> []" "p (hd s)"
      using Cons True by simp_all
    show ?thesis
      using eq d by (cases "dropWhile p xs") auto
  qed
qed

text \<open>The patterns of a mention in backticks, with and without the group.\<close>

definition not_backtick :: "char \<Rightarrow> bool" where
  "not_backtick x = (x \<noteq> CHR ''`'')"

lemma hd_dropWhile_not_backtick: "dropWhile not_backtick t \<noteq> [] \<Longrightarrow> hd (dropWhile not_backtick t) = CHR ''`''"
  using hd_dropWhile [of not_backtick t] by (simp add: not_backtick_def)

lemma first_match_backtick_regex:
  "first_match backtick_regex (pv, s, [])
     = (case s of
          a # b # t \<Rightarrow>
            if a = CHR ''@'' \<and> b = CHR ''`'' \<and> t \<noteq> [] \<and> hd t \<noteq> CHR ''`'' \<and> dropWhile not_backtick t \<noteq> []
            then Some (Some CHR ''`'', tl (dropWhile not_backtick t), [(1, takeWhile not_backtick t)])
            else None
        | _ \<Rightarrow> None)"
proof -
  have nb: "(\<lambda>x. x \<noteq> CHR ''`'') = not_backtick"
    by (simp add: not_backtick_def fun_eq_iff)
  have g: "first_match (seqs [Grp n (plus_rx (Cls not_backtick)), chr CHR ''`'']) (pv', t, [])
             = (if t \<noteq> [] \<and> hd t \<noteq> CHR ''`'' \<and> dropWhile not_backtick t \<noteq> []
                then Some (Some CHR ''`'', tl (dropWhile not_backtick t), [(n, takeWhile not_backtick t)])
                else None)" for pv' t n
    unfolding first_match_def
    by (subst ms_Grp_plus_then_chr) (auto simp: not_backtick_def [of "CHR ''`''"] not_backtick_def [of "hd _"]
                                           hd_dropWhile_not_backtick)
  show ?thesis
    unfolding backtick_regex_def nb
    by (simp add: first_match_seqs_chr g split: list.splits)
qed

lemma first_match_backtick_mention:
  "first_match backtick_mention (pv, s, [])
     = (case s of
          a # b # t \<Rightarrow>
            if a = CHR ''@'' \<and> b = CHR ''`'' \<and> t \<noteq> [] \<and> hd t \<noteq> CHR ''`'' \<and> dropWhile not_backtick t \<noteq> []
            then Some (Some CHR ''`'', tl (dropWhile not_backtick t), [])
            else None
        | _ \<Rightarrow> None)"
proof -
  have nb: "(\<lambda>x. x \<noteq> CHR ''`'') = not_backtick"
    by (simp add: not_backtick_def fun_eq_iff)
  have g: "first_match (seqs [plus_rx (Cls not_backtick), chr CHR ''`'']) (pv', t, [])
             = (if t \<noteq> [] \<and> hd t \<noteq> CHR ''`'' \<and> dropWhile not_backtick t \<noteq> []
                then Some (Some CHR ''`'', tl (dropWhile not_backtick t), [])
                else None)" for pv' t
    unfolding first_match_def
    by (subst ms_plus_then_chr) (auto simp: not_backtick_def [of "CHR ''`''"] not_backtick_def [of "hd _"]
                                       hd_dropWhile_not_backtick)
  show ?thesis
    unfolding backtick_mention_def nb
    by (simp add: first_match_seqs_chr g split: list.splits)
qed

section \<open>Properties of the global loops\<close>

declare exec_all.simps [simp del] replace_all.simps [simp del]

lemma exec_all_None:
  "first_match r (pv, s, []) = None \<Longrightarrow>
   exec_all r pv s = (case s of [] \<Rightarrow> [] | x # xs \<Rightarrow> exec_all r (Some x) xs)"
  by (subst exec_all.simps) simp

lemma exec_all_Some:
  "first_match r (pv, s, []) = Some (pv', s', c) \<Longrightarrow> length s' < length s \<Longrightarrow>
   exec_all r pv s = c # exec_all r pv' s'"
  by (subst exec_all.simps) simp

lemma replace_all_None:
  "first_match r (pv, s, []) = None \<Longrightarrow>
   replace_all r rep pv s = (case s of [] \<Rightarrow> [] | x # xs \<Rightarrow> x # replace_all r rep (Some x) xs)"
  by (subst replace_all.simps) simp

lemma replace_all_Some:
  "first_match r (pv, s, []) = Some (pv', s', c) \<Longrightarrow> length s' < length s \<Longrightarrow>
   replace_all r rep pv s = rep @ replace_all r rep pv' s'"
  by (subst replace_all.simps) simp

text \<open>Where the pattern matches nowhere, nothing is found and nothing is replaced.\<close>

lemma exec_all_no_match:
  "(\<And>pv t. suffix t s \<Longrightarrow> first_match r (pv, t, []) = None) \<Longrightarrow> exec_all r pv s = []"
proof (induction s arbitrary: pv)
  case Nil
  then show ?case by (simp add: exec_all_None)
next
  case (Cons x xs)
  have "exec_all r (Some x) xs = []"
    by (rule Cons.IH) (simp add: Cons.prems suffix_Cons)
  then show ?case
    by (simp add: exec_all_None Cons.prems)
qed

lemma replace_all_no_match:
  "(\<And>pv t. suffix t s \<Longrightarrow> first_match r (pv, t, []) = None) \<Longrightarrow> replace_all r rep pv s = s"
proof (induction s arbitrary: pv)
  case Nil
  then show ?case by (simp add: replace_all_None)
next
  case (Cons x xs)
  have "replace_all r rep (Some x) xs = xs"
    by (rule Cons.IH) (simp add: Cons.prems suffix_Cons)
  then show ?case
    by (simp add: replace_all_None Cons.prems)
qed

text \<open>What holds for the captures of every match holds for all that the loop collects.\<close>

lemma exec_all_all:
  assumes "\<And>pv s pv' s' c. first_match r (pv, s, []) = Some (pv', s', c) \<Longrightarrow> Q c"
  shows "\<forall>c \<in> set (exec_all r pv s). Q c"
proof (induction s arbitrary: pv rule: length_induct)
  case (1 s)
  show ?case
  proof (cases "first_match r (pv, s, [])")
    case None
    show ?thesis
    proof (cases s)
      case Nil
      with None show ?thesis by (simp add: exec_all_None)
    next
      case (Cons x xs)
      with 1 have "\<forall>c \<in> set (exec_all r (Some x) xs). Q c"
        by (metis length_Cons lessI)
      with None Cons show ?thesis by (simp add: exec_all_None)
    qed
  next
    case (Some st)
    obtain pv' s' c where st: "st = (pv', s', c)" by (cases st)
    show ?thesis
    proof (cases "length s' < length s")
      case True
      with 1 have "\<forall>c \<in> set (exec_all r pv' s'). Q c"
        by metis
      with True Some st assms [of pv s pv' s' c] show ?thesis
        by (simp add: exec_all_Some)
    next
      case False
      with Some st show ?thesis
        by (subst exec_all.simps) simp
    qed
  qed
qed


text \<open>The mention patterns need an \<open>@\<close>, and the backtick patterns a backtick.\<close>

lemma first_match_simple_regex_no_at:
  "CHR ''@'' \<notin> set s \<Longrightarrow> first_match simple_regex (pv, s, []) = None"
  by (cases s) (auto simp: first_match_simple_regex)

lemma first_match_backtick_regex_no_at:
  "CHR ''@'' \<notin> set s \<Longrightarrow> first_match backtick_regex (pv, s, []) = None"
  by (auto simp: first_match_backtick_regex split: list.splits)

lemma first_match_backtick_regex_no_backtick:
  "CHR ''`'' \<notin> set s \<Longrightarrow> first_match backtick_regex (pv, s, []) = None"
  by (auto simp: first_match_backtick_regex split: list.splits)

lemma first_match_backtick_mention_no_backtick:
  "CHR ''`'' \<notin> set s \<Longrightarrow> first_match backtick_mention (pv, s, []) = None"
  by (auto simp: first_match_backtick_mention split: list.splits)

lemma exec_all_simple_no_at: "CHR ''@'' \<notin> set s \<Longrightarrow> exec_all simple_regex pv s = []"
  by (rule exec_all_no_match) (auto dest: suffix_set intro!: first_match_simple_regex_no_at)

lemma exec_all_backtick_no_at: "CHR ''@'' \<notin> set s \<Longrightarrow> exec_all backtick_regex pv s = []"
  by (rule exec_all_no_match) (auto dest: suffix_set intro!: first_match_backtick_regex_no_at)

lemma exec_all_backtick_no_backtick: "CHR ''`'' \<notin> set s \<Longrightarrow> exec_all backtick_regex pv s = []"
  by (rule exec_all_no_match) (auto dest: suffix_set intro!: first_match_backtick_regex_no_backtick)

lemma replace_all_backtick_mention_no_backtick:
  "CHR ''`'' \<notin> set s \<Longrightarrow> replace_all backtick_mention rep pv s = s"
  by (rule replace_all_no_match) (auto dest: suffix_set intro!: first_match_backtick_mention_no_backtick)

section \<open>Properties of the reference functions\<close>

text \<open>The texts of group 1 of a list of matches.\<close>

definition tokens_of :: "captures list \<Rightarrow> string list" where
  "tokens_of caps = List.map_filter (\<lambda>m. match_group m 1) caps"

text \<open>
  The tokens of the two loops of \<open>extractFileReferences\<close>, in the order in which the
  loops find them.
\<close>

definition backtick_tokens :: "string \<Rightarrow> string list" where
  "backtick_tokens text = filter (\<lambda>w. w \<noteq> []) (map trim (tokens_of (exec_all backtick_regex None text)))"

definition simple_tokens :: "string \<Rightarrow> string list" where
  "simple_tokens text = tokens_of (exec_all simple_regex None text)"

lemma tokens_of_Nil: "tokens_of [] = []"
  by (simp add: tokens_of_def List.map_filter_simps)

lemma tokens_of_Cons:
  "tokens_of (m # caps) = (case match_group m 1 of None \<Rightarrow> tokens_of caps | Some g \<Rightarrow> g # tokens_of caps)"
  by (simp add: tokens_of_def List.map_filter_simps split: option.splits)

lemma foldl_add_simple: "foldl add_simple acc caps = foldl set_add acc (tokens_of caps)"
  by (induction caps arbitrary: acc) (auto simp: tokens_of_Nil tokens_of_Cons add_simple_def split: option.splits)

lemma foldl_add_backtick:
  "foldl add_backtick acc caps = foldl set_add acc (filter (\<lambda>w. w \<noteq> []) (map trim (tokens_of caps)))"
  by (induction caps arbitrary: acc)
     (auto simp: tokens_of_Nil tokens_of_Cons add_backtick_def Let_def split: option.splits)

lemma extractFileReferences_tokens:
  "extractFileReferences text = foldl set_add [] (backtick_tokens text @ simple_tokens text)"
  by (simp add: extractFileReferences_def backtick_tokens_def simple_tokens_def foldl_add_simple
                foldl_add_backtick Let_def)

text \<open>Adding to a \<open>Set\<close> keeps the first occurrence of every element.\<close>

lemma distinct_foldl_set_add: "distinct acc \<Longrightarrow> distinct (foldl set_add acc xs)"
  by (induction xs arbitrary: acc) (auto simp: set_add_def)

lemma set_foldl_set_add: "set (foldl set_add acc xs) = set acc \<union> set xs"
  by (induction xs arbitrary: acc) (auto simp: set_add_def)

lemma remdups_snoc: "remdups (ys @ [x]) = filter (\<lambda>y. y \<noteq> x) (remdups ys) @ [x]"
  by (induction ys) auto

lemma foldl_set_add_first:
  "foldl set_add acc xs = acc @ rev (remdups (rev (filter (\<lambda>x. x \<notin> set acc) xs)))"
proof (induction xs arbitrary: acc)
  case Nil
  then show ?case by simp
next
  case (Cons x xs)
  show ?case
  proof (cases "x \<in> set acc")
    case True
    with Cons [of acc] show ?thesis by (simp add: set_add_def)
  next
    case False
    have "filter (\<lambda>y. y \<noteq> x) (remdups (rev (filter (\<lambda>y. y \<notin> set acc) xs)))
            = remdups (rev (filter (\<lambda>y. y \<notin> set (acc @ [x])) xs))"
      by (simp add: remdups_filter [symmetric] rev_filter [symmetric] conj_commute)
    with False Cons [of "acc @ [x]"] show ?thesis
      by (simp add: set_add_def remdups_snoc rev_filter)
  qed
qed

lemma foldl_set_add_Nil: "foldl set_add [] xs = rev (remdups (rev xs))"
  by (simp add: foldl_set_add_first)

text \<open>The shape of the tokens.\<close>

lemma simple_tokens_shape: "\<forall>w \<in> set (tokens_of (exec_all simple_regex pv s)). w \<noteq> [] \<and> list_all simple_char w"
proof -
  have "\<forall>m \<in> set (exec_all simple_regex pv s). \<exists>w. m = [(1, w)] \<and> w \<noteq> [] \<and> list_all simple_char w"
  proof (rule exec_all_all)
    fix pv s pv' s' m
    assume "first_match simple_regex (pv, s, []) = Some (pv', s', m)"
    then show "\<exists>w. m = [(1, w)] \<and> w \<noteq> [] \<and> list_all simple_char w"
      by (cases s; cases "tl s")
         (auto simp: first_match_simple_regex list_all_iff split: if_splits dest: set_takeWhileD)
  qed
  then show ?thesis
    by (fastforce simp: tokens_of_def List.map_filter_def match_group_def)
qed

lemma trim_shape: "trim w \<noteq> [] \<Longrightarrow> \<not> is_space (hd (trim w)) \<and> \<not> is_space (last (trim w))"
proof -
  assume n: "trim w \<noteq> []"
  let ?a = "dropWhile is_space w" and ?b = "dropWhile is_space (rev (dropWhile is_space w))"
  from n have b: "?b \<noteq> []" by (simp add: trim_def)
  then have l: "\<not> is_space (hd ?b)" by (rule hd_dropWhile)
  have a: "?a \<noteq> []"
  proof
    assume e: "?a = []"
    have "?b = []" unfolding e by simp
    with b show False by blast
  qed
  from a have h: "\<not> is_space (hd ?a)" by (rule hd_dropWhile)
  have "rev ?a = takeWhile is_space (rev ?a) @ ?b"
    by simp
  then have "last (rev ?a) = last ?b"
    using b by (metis last_appendR)
  moreover have "last (rev ?a) = hd ?a"
    using a by (simp add: last_rev)
  ultimately have "\<not> is_space (last ?b)"
    using h by simp
  moreover have "hd (rev ?b) = last ?b" "last (rev ?b) = hd ?b"
    using b by (simp_all add: hd_rev last_rev)
  ultimately show ?thesis
    using l by (simp add: trim_def)
qed

lemma set_trim: "set (trim w) \<subseteq> set w"
proof
  fix x assume "x \<in> set (trim w)"
  then have "x \<in> set (dropWhile is_space (rev (dropWhile is_space w)))"
    by (simp add: trim_def)
  then have "x \<in> set (rev (dropWhile is_space w))"
    by (rule set_dropWhileD)
  then have "x \<in> set (dropWhile is_space w)"
    by simp
  then show "x \<in> set w"
    by (rule set_dropWhileD)
qed

lemma backtick_tokens_shape:
  "\<forall>w \<in> set (backtick_tokens text).
     w \<noteq> [] \<and> CHR ''`'' \<notin> set w \<and> \<not> is_space (hd w) \<and> \<not> is_space (last w)"
proof -
  have "\<forall>m \<in> set (exec_all backtick_regex None text). \<exists>w. m = [(1, w)] \<and> CHR ''`'' \<notin> set w"
  proof (rule exec_all_all)
    fix pv s pv' s' m
    assume "first_match backtick_regex (pv, s, []) = Some (pv', s', m)"
    then show "\<exists>w. m = [(1, w)] \<and> CHR ''`'' \<notin> set w"
      by (auto simp: first_match_backtick_regex split: list.splits if_splits
               dest!: set_takeWhileD simp: not_backtick_def [of "CHR ''`''"])
  qed
  then have "\<forall>w \<in> set (tokens_of (exec_all backtick_regex None text)). CHR ''`'' \<notin> set w"
    by (fastforce simp: tokens_of_def List.map_filter_def match_group_def)
  then show ?thesis
    using set_trim trim_shape by (fastforce simp: backtick_tokens_def)
qed

text \<open>A mention at the start of the text is the first one that its loop finds.\<close>

lemma takeWhile_run:
  "list_all p tok \<Longrightarrow> rest = [] \<or> \<not> p (hd rest) \<Longrightarrow> takeWhile p (tok @ rest) = tok"
  by (cases rest) (auto simp: list_all_iff takeWhile_append2)

lemma dropWhile_run:
  "list_all p tok \<Longrightarrow> rest = [] \<or> \<not> p (hd rest) \<Longrightarrow> dropWhile p (tok @ rest) = rest"
  by (cases rest) (auto simp: list_all_iff dropWhile_append2)

lemma exec_all_simple_at:
  assumes "tok \<noteq> []" "list_all simple_char tok" "rest = [] \<or> \<not> simple_char (hd rest)"
  shows "exec_all simple_regex pv (CHR ''@'' # tok @ rest)
           = [(1, tok)] # exec_all simple_regex (Some (last tok)) rest"
proof -
  have "simple_char (hd (tok @ rest))"
    using assms(1,2) by (cases tok) simp_all
  then have "first_match simple_regex (pv, CHR ''@'' # tok @ rest, [])
               = Some (Some (last tok), rest, [(1, tok)])"
    using assms by (simp add: first_match_simple_regex takeWhile_run dropWhile_run)
  then show ?thesis
    by (rule exec_all_Some) simp
qed

lemma exec_all_backtick_at:
  assumes "w \<noteq> []" "CHR ''`'' \<notin> set w"
  shows "exec_all backtick_regex pv (CHR ''@'' # CHR ''`'' # w @ CHR ''`'' # rest)
           = [(1, w)] # exec_all backtick_regex (Some CHR ''`'') rest"
proof -
  have a: "list_all not_backtick w"
    using assms(2) by (auto simp: list_all_iff not_backtick_def)
  have b: "CHR ''`'' # rest = [] \<or> \<not> not_backtick (hd (CHR ''`'' # rest))"
    by (simp add: not_backtick_def)
  have "hd (w @ CHR ''`'' # rest) \<noteq> CHR ''`''"
    using assms by (cases w) auto
  then have "first_match backtick_regex (pv, CHR ''@'' # CHR ''`'' # w @ CHR ''`'' # rest, [])
               = Some (Some CHR ''`'', rest, [(1, w)])"
    using assms(1)
    by (simp add: first_match_backtick_regex takeWhile_run [OF a b] dropWhile_run [OF a b]
             del: dropWhile_eq_Nil_conv)
  then show ?thesis
    by (rule exec_all_Some) simp
qed

lemma simple_tokens_at:
  assumes "tok \<noteq> []" "list_all simple_char tok" "rest = [] \<or> \<not> simple_char (hd rest)"
  shows "hd (simple_tokens (CHR ''@'' # tok @ rest)) = tok \<and> tok \<in> set (simple_tokens (CHR ''@'' # tok @ rest))"
  by (simp add: simple_tokens_def exec_all_simple_at [OF assms] tokens_of_Cons match_group_def)

lemma backtick_tokens_at:
  assumes "trim w \<noteq> []" "CHR ''`'' \<notin> set w"
  shows "hd (backtick_tokens (CHR ''@'' # CHR ''`'' # w @ CHR ''`'' # rest)) = trim w
       \<and> trim w \<in> set (backtick_tokens (CHR ''@'' # CHR ''`'' # w @ CHR ''`'' # rest))"
proof -
  from assms(1) have "w \<noteq> []" by (auto simp: trim_def)
  from exec_all_backtick_at [OF this assms(2)] assms(1) show ?thesis
    by (simp add: backtick_tokens_def tokens_of_Cons match_group_def)
qed





section \<open>Properties of the reference stripper\<close>

text \<open>A token boundary: the end of the text, white space, or sentence punctuation.\<close>

definition boundary :: "string \<Rightarrow> bool" where
  "boundary t = (t = [] \<or> is_space (hd t) \<or> hd t \<in> set ''.,;!?'')"

lemma ms_boundary:
  "ms (alts [Cls is_space, Eol, Cls (\<lambda>x. x \<in> set ''.,;!?'')]) (pv, t, c) = [] \<longleftrightarrow> \<not> boundary t"
  by (cases t) (auto simp: boundary_def)

lemma ms_seqs_single_fun: "ms (seqs [r]) = ms r"
  by (rule ext) (rule ms_seqs_single)

text \<open>The pattern for a reference matches the reference, literally, at a token boundary.\<close>

lemma first_match_ref_regex:
  "first_match (ref_regex ref) (pv, s, c)
     = (if prefix (CHR ''@'' # ref) s \<and> boundary (drop (Suc (length ref)) s)
        then Some (prev_after (Some CHR ''@'') ref, drop (Suc (length ref)) s, c)
        else None)"
proof -
  define L where "L = alts [Cls is_space, Eol, Cls (\<lambda>x. x \<in> set ''.,;!?'')]"
  have b: "ms L (pv', t, c) = [] \<longleftrightarrow> \<not> boundary t" for pv' t
    unfolding L_def by (rule ms_boundary)
  have r: "ref_regex ref = seqs [chr CHR ''@'', lit ref, Look L]"
    by (simp only: ref_regex_def L_def)
  have m: "first_match (seqs [lit ref, Look L]) (Some x, xs, c)
          = (if prefix ref xs \<and> boundary (drop (length ref) xs)
             then Some (prev_after (Some x) ref, drop (length ref) xs, c) else None)" for x xs
    using b [of "prev_after (Some x) ref" "drop (length ref) xs"]
    by (simp add: first_match_def ms_seqs_Cons ms_seqs_single_fun ms_lit)
  show ?thesis
    unfolding r by (cases s) (auto simp: first_match_seqs_chr m)
qed

lemma first_match_ref_regex_no_at:
  "CHR ''@'' \<notin> set s \<Longrightarrow> first_match (ref_regex ref) (pv, s, []) = None"
  by (cases s) (auto simp: first_match_ref_regex)

lemma replace_all_ref_regex_no_at:
  "CHR ''@'' \<notin> set s \<Longrightarrow> replace_all (ref_regex ref) rep pv s = s"
  by (rule replace_all_no_match) (auto dest: suffix_set intro!: first_match_ref_regex_no_at)

text \<open>Replacing every run of white space by one space.\<close>

function collapse_ws :: "string \<Rightarrow> string" where
  "collapse_ws [] = []"
| "collapse_ws (x # xs) =
     (if is_space x then CHR '' '' # collapse_ws (dropWhile is_space xs) else x # collapse_ws xs)"
  by pat_completeness auto
termination
  by (relation "measure length") (auto simp: length_dropWhile_le less_Suc_eq_le)

lemma replace_all_spaces: "replace_all spaces '' '' pv s = collapse_ws s"
proof (induction s arbitrary: pv rule: length_induct)
  case (1 s)
  show ?case
  proof (cases s)
    case Nil
    then show ?thesis
      by (simp add: replace_all_None spaces_def first_match_plus_rx_Cls_hd)
  next
    case (Cons x xs)
    show ?thesis
    proof (cases "is_space x")
      case True
      have l: "length (dropWhile is_space xs) < length s"
        using Cons by (simp add: length_dropWhile_le less_Suc_eq_le)
      with 1 have ih: "replace_all spaces '' '' pv' (dropWhile is_space xs) = collapse_ws (dropWhile is_space xs)"
        for pv'
        by blast
      have "first_match spaces (pv, s, []) = Some (Some (last (takeWhile is_space s)), dropWhile is_space xs, [])"
        using Cons True by (simp add: spaces_def first_match_plus_rx_Cls_hd)
      from replace_all_Some [OF this l, of "'' ''"] ih Cons True show ?thesis
        by simp
    next
      case False
      from 1 Cons have ih: "replace_all spaces '' '' (Some x) xs = collapse_ws xs"
        by simp
      have "first_match spaces (pv, s, []) = None"
        using Cons False by (simp add: spaces_def first_match_plus_rx_Cls_hd)
      from replace_all_None [OF this, of "'' ''"] ih Cons False show ?thesis
        by simp
    qed
  qed
qed

text \<open>No two white-space characters in a row.\<close>

fun single_spaced :: "string \<Rightarrow> bool" where
  "single_spaced (x # y # zs) = (\<not> (is_space x \<and> is_space y) \<and> single_spaced (y # zs))"
| "single_spaced _ = True"

lemma single_spaced_collapse_ws: "single_spaced (collapse_ws s)"
proof (induction s rule: collapse_ws.induct)
  case 1
  then show ?case by simp
next
  case (2 x xs)
  show ?case
  proof (cases "is_space x")
    case True
    show ?thesis
    proof (cases "dropWhile is_space xs")
      case Nil
      with True show ?thesis by (simp del: dropWhile_eq_Nil_conv)
    next
      case (Cons y ys)
      with hd_dropWhile [of is_space xs] have "\<not> is_space y" by simp
      with True Cons 2(1) show ?thesis by (simp del: dropWhile_eq_Nil_conv)
    qed
  next
    case False
    with 2 show ?thesis
      by (cases "collapse_ws xs") auto
  qed
qed

lemma spaces_collapse_ws: "c \<in> set (collapse_ws s) \<Longrightarrow> is_space c \<Longrightarrow> c = CHR '' ''"
  by (induction s rule: collapse_ws.induct) (auto split: if_splits)

lemma single_spaced_append: "single_spaced (xs @ ys) \<Longrightarrow> single_spaced xs \<and> single_spaced ys"
  by (induction xs rule: single_spaced.induct) (auto split: list.splits, (cases ys; simp)+)

lemma trim_infix:
  "s = takeWhile is_space s @ trim s @ rev (takeWhile is_space (rev (dropWhile is_space s)))"
proof -
  let ?d = "dropWhile is_space s"
  have "rev (dropWhile is_space (rev ?d)) @ rev (takeWhile is_space (rev ?d))
          = rev (takeWhile is_space (rev ?d) @ dropWhile is_space (rev ?d))"
    by (simp only: rev_append)
  also have "\<dots> = rev (rev ?d)"
    by (simp only: takeWhile_dropWhile_id)
  also have "\<dots> = ?d"
    by simp
  finally have "?d = trim s @ rev (takeWhile is_space (rev ?d))"
    by (simp only: trim_def)
  moreover have "s = takeWhile is_space s @ ?d"
    by simp
  ultimately show ?thesis by metis
qed

lemma single_spaced_trim: "single_spaced s \<Longrightarrow> single_spaced (trim s)"
proof -
  assume a: "single_spaced s"
  obtain u v where "s = u @ trim s @ v"
    using trim_infix by blast
  with a have "single_spaced (u @ trim s @ v)" by simp
  then have "single_spaced (trim s @ v)" using single_spaced_append by blast
  then show ?thesis using single_spaced_append by blast
qed

lemma startsWith_set: "startsWith u t \<Longrightarrow> set t \<subseteq> set u"
  by (induction u t rule: startsWith.induct) auto

lemma includes_str_set: "includes_str s t \<Longrightarrow> set t \<subseteq> set s"
proof (induction s)
  case Nil
  then show ?case by simp
next
  case (Cons x xs)
  from Cons.prems have "startsWith (x # xs) t \<or> includes_str xs t" by simp
  then show ?case
  proof
    assume "startsWith (x # xs) t"
    then show ?thesis by (rule startsWith_set)
  next
    assume "includes_str xs t"
    with Cons.IH show ?thesis by auto
  qed
qed

section \<open>Properties of the keyword summary\<close>



lemma split_spaces_not_Nil: "split_spaces s \<noteq> []"
  by (induction s rule: split_spaces.induct) (auto split: list.splits)




































section \<open>Properties of stripping every mention\<close>

text \<open>
  \<open>all_bare P s\<close>: every \<open>@\<close> of \<open>s\<close> begins a bare mention, that is, it is followed by a
  token (a non-empty run of the characters that \<open>simple_regex\<close> accepts, as long as
  possible) and then by a token boundary, and the token satisfies \<open>P\<close>.
\<close>

fun all_bare :: "(string \<Rightarrow> bool) \<Rightarrow> string \<Rightarrow> bool" where
  "all_bare P [] = True"
| "all_bare P (x # xs) =
     ((x = CHR ''@'' \<longrightarrow>
         takeWhile simple_char xs \<noteq> [] \<and> P (takeWhile simple_char xs)
         \<and> boundary (dropWhile simple_char xs))
      \<and> all_bare P xs)"



lemma all_bare_no_at: "CHR ''@'' \<notin> set s \<Longrightarrow> all_bare P s"
  by (induction s) auto





lemma boundary_not_simple: "boundary (x # xs) \<Longrightarrow> \<not> simple_char x"
  by (auto simp: boundary_def simple_char_def)









section \<open>Properties of the two loops of the extraction\<close>

text \<open>
  The loops do not depend on the character before the position where a search starts.
\<close>

lemma exec_all_pv:
  assumes "first_match r (pv, s, []) = first_match r (pv', s, [])"
  shows "exec_all r pv s = exec_all r pv' s"
proof -
  have "exec_all r pv s
          = (case first_match r (pv, s, []) of
               Some (pv', s', c) \<Rightarrow> if length s' < length s then c # exec_all r pv' s' else []
             | None \<Rightarrow> (case s of [] \<Rightarrow> [] | x # xs \<Rightarrow> exec_all r (Some x) xs))"
    by (rule exec_all.simps)
  also have "\<dots> = (case first_match r (pv', s, []) of
               Some (pv', s', c) \<Rightarrow> if length s' < length s then c # exec_all r pv' s' else []
             | None \<Rightarrow> (case s of [] \<Rightarrow> [] | x # xs \<Rightarrow> exec_all r (Some x) xs))"
    by (simp only: assms)
  also have "\<dots> = exec_all r pv' s"
    by (rule exec_all.simps [symmetric])
  finally show ?thesis .
qed

lemma exec_all_simple_pv: "exec_all simple_regex pv s = exec_all simple_regex None s"
  by (rule exec_all_pv) (simp add: first_match_simple_regex)

lemma exec_all_backtick_pv: "exec_all backtick_regex pv s = exec_all backtick_regex None s"
  by (rule exec_all_pv) (simp add: first_match_backtick_regex)

text \<open>The loop for the bare mentions, step by step.\<close>

lemma simple_tokens_Nil: "simple_tokens [] = []"
  by (simp add: simple_tokens_def exec_all_simple_no_at tokens_of_Nil)

lemma simple_tokens_skip:
  assumes "\<not> (x = CHR ''@'' \<and> xs \<noteq> [] \<and> simple_char (hd xs))"
  shows "simple_tokens (x # xs) = simple_tokens xs"
proof -
  from assms have "first_match simple_regex (None, x # xs, []) = None"
    by (simp add: first_match_simple_regex)
  then have "exec_all simple_regex None (x # xs) = exec_all simple_regex (Some x) xs"
    by (simp add: exec_all_None)
  also have "\<dots> = exec_all simple_regex None xs"
    by (rule exec_all_simple_pv)
  finally show ?thesis
    by (simp add: simple_tokens_def)
qed

lemma simple_tokens_mention:
  assumes "tok \<noteq> []" "list_all simple_char tok" "rest = [] \<or> \<not> simple_char (hd rest)"
  shows "simple_tokens (CHR ''@'' # tok @ rest) = tok # simple_tokens rest"
proof -
  have "exec_all simple_regex None (CHR ''@'' # tok @ rest)
          = [(1, tok)] # exec_all simple_regex (Some (last tok)) rest"
    using assms by (rule exec_all_simple_at)
  also have "exec_all simple_regex (Some (last tok)) rest = exec_all simple_regex None rest"
    by (rule exec_all_simple_pv)
  finally show ?thesis
    by (simp add: simple_tokens_def tokens_of_Cons match_group_def)
qed

text \<open>The loop for the mentions in backticks, step by step.\<close>

lemma backtick_tokens_Nil: "backtick_tokens [] = []"
  by (simp add: backtick_tokens_def exec_all_backtick_no_at tokens_of_Nil)

lemma backtick_tokens_skip:
  assumes "\<not> (x = CHR ''@'' \<and> (\<exists>span rest. xs = CHR ''`'' # span @ CHR ''`'' # rest
                                        \<and> span \<noteq> [] \<and> CHR ''`'' \<notin> set span))"
  shows "backtick_tokens (x # xs) = backtick_tokens xs"
proof -
  have "first_match backtick_regex (None, x # xs, []) = None"
  proof (rule ccontr)
    assume "first_match backtick_regex (None, x # xs, []) \<noteq> None"
    then obtain b t where xs: "xs = b # t" and
      c: "x = CHR ''@''" "b = CHR ''`''" "t \<noteq> []" "hd t \<noteq> CHR ''`''" "dropWhile not_backtick t \<noteq> []"
      by (auto simp: first_match_backtick_regex split: list.splits if_splits)
    let ?span = "takeWhile not_backtick t"
    let ?rest = "tl (dropWhile not_backtick t)"
    have "dropWhile not_backtick t = CHR ''`'' # ?rest"
      using c(5) hd_dropWhile_not_backtick [OF c(5)] by (cases "dropWhile not_backtick t") simp_all
    then have "t = ?span @ CHR ''`'' # ?rest"
      using takeWhile_dropWhile_id [of not_backtick t] by simp
    moreover have "?span \<noteq> []"
      using c(3,4) by (cases t) (simp_all add: not_backtick_def)
    moreover have "CHR ''`'' \<notin> set ?span"
      by (auto dest: set_takeWhileD simp: not_backtick_def)
    ultimately have "\<exists>span rest. xs = CHR ''`'' # span @ CHR ''`'' # rest \<and> span \<noteq> [] \<and> CHR ''`'' \<notin> set span"
      using xs c(2) by blast
    with assms c(1) show False
      by blast
  qed
  then have "exec_all backtick_regex None (x # xs) = exec_all backtick_regex (Some x) xs"
    by (simp add: exec_all_None)
  also have "\<dots> = exec_all backtick_regex None xs"
    by (rule exec_all_backtick_pv)
  finally show ?thesis
    by (simp add: backtick_tokens_def)
qed

lemma backtick_tokens_mention:
  assumes "span \<noteq> []" "CHR ''`'' \<notin> set span"
  shows "backtick_tokens (CHR ''@'' # CHR ''`'' # span @ CHR ''`'' # rest)
           = (if trim span \<noteq> [] then [trim span] else []) @ backtick_tokens rest"
proof -
  have "exec_all backtick_regex None (CHR ''@'' # CHR ''`'' # span @ CHR ''`'' # rest)
          = [(1, span)] # exec_all backtick_regex (Some CHR ''`'') rest"
    using assms by (rule exec_all_backtick_at)
  also have "exec_all backtick_regex (Some CHR ''`'') rest = exec_all backtick_regex None rest"
    by (rule exec_all_backtick_pv)
  finally show ?thesis
    by (simp add: backtick_tokens_def tokens_of_Cons match_group_def)
qed

section \<open>The year of a day\<close>

text \<open>
  The first day of a year, against the mean length of a year: \<open>146097\<close> days in \<open>400\<close>
  years.
\<close>

lemma div_bounds:
  fixes x k :: int
  assumes "0 < k"
  shows "k * (x div k) \<le> x \<and> x < k * (x div k) + k"
proof -
  have "x = k * (x div k) + x mod k"
    by simp
  moreover have "0 \<le> x mod k" "x mod k < k"
    using assms by simp_all
  ultimately show ?thesis
    by linarith
qed

lemma DayFromYear_bounds:
  "146097 * y - 287811596 \<le> 400 * DayFromYear y \<and> 400 * DayFromYear y \<le> 146097 * y - 287810501"
proof -
  define a where "a = (y - 1969) div 4"
  define b where "b = (y - 1901) div 100"
  define c where "c = (y - 1601) div 400"
  have "4 * a \<le> y - 1969 \<and> y - 1969 < 4 * a + 4"
    unfolding a_def by (rule div_bounds) simp
  moreover have "100 * b \<le> y - 1901 \<and> y - 1901 < 100 * b + 100"
    unfolding b_def by (rule div_bounds) simp
  moreover have "400 * c \<le> y - 1601 \<and> y - 1601 < 400 * c + 400"
    unfolding c_def by (rule div_bounds) simp
  ultimately have f: "4 * a \<le> y - 1969" "y - 1969 < 4 * a + 4" "100 * b \<le> y - 1901"
    "y - 1901 < 100 * b + 100" "400 * c \<le> y - 1601" "y - 1601 < 400 * c + 400"
    by simp_all
  have d: "400 * DayFromYear y = 146000 * y - 287620000 + 400 * a - 400 * b + 400 * c"
    by (simp add: DayFromYear_def a_def b_def c_def algebra_simps)
  have "146097 * y - 287811596 \<le> 400 * DayFromYear y"
    unfolding d using f by linarith
  moreover have "400 * DayFromYear y \<le> 146097 * y - 287810501"
    unfolding d using f by linarith
  ultimately show ?thesis
    by (rule conjI)
qed

lemma DayFromYear_strict_mono:
  assumes "y < y'"
  shows "DayFromYear y < DayFromYear y'"
  using DayFromYear_bounds [of y, THEN conjunct2] DayFromYear_bounds [of y', THEN conjunct1] assms
  by linarith

text \<open>
  \<open>YearFromDay d\<close> is the year of the specification: the largest year whose first day
  is not after day \<open>d\<close>.
\<close>

lemma YearFromDay_bounds:
  "DayFromYear (YearFromDay d) \<le> d \<and> d < DayFromYear (YearFromDay d + 1)"
proof -
  define q where "q = (400 * d) div 146097"
  define y where "y = 1970 + q"
  have "146097 * q \<le> 400 * d \<and> 400 * d < 146097 * q + 146097"
    unfolding q_def by (rule div_bounds) simp
  then have e: "146097 * y - 287811090 \<le> 400 * d" "400 * d < 146097 * y - 287664993"
    by (simp_all add: y_def)
  have m: "146097 * (y - 1) = 146097 * y - 146097" "146097 * (y + 2) = 146097 * y + 292194"
    by simp_all
  have l: "DayFromYear (y - 1) \<le> d"
    using DayFromYear_bounds [of "y - 1", THEN conjunct2] e unfolding m by linarith
  have u: "d < DayFromYear (y + 2)"
    using DayFromYear_bounds [of "y + 2", THEN conjunct1] e unfolding m by linarith
  have r: "YearFromDay d = (if d < DayFromYear y then y - 1
                            else if DayFromYear (y + 1) \<le> d then y + 1 else y)"
    by (simp add: YearFromDay_def Let_def y_def q_def)
  have s: "y + 1 + 1 = y + 2"
    by simp
  show ?thesis
    unfolding r using l u by (simp add: s)
qed

lemma YearFromDay_greatest:
  assumes "DayFromYear y \<le> d"
  shows "y \<le> YearFromDay d"
proof (rule ccontr)
  assume "\<not> y \<le> YearFromDay d"
  then have "YearFromDay d + 1 = y \<or> YearFromDay d + 1 < y"
    by linarith
  then have "DayFromYear (YearFromDay d + 1) \<le> DayFromYear y"
    using DayFromYear_strict_mono [of "YearFromDay d + 1" y] by auto
  with assms YearFromDay_bounds [of d, THEN conjunct2] show False
    by linarith
qed

section \<open>Verified properties\<close>

subsection \<open>C5: day-of-week references\<close>

text \<open>
  Claim C5. For a named weekday with index \<open>target\<close> (Sunday is 0), let \<open>diff\<close> be
  \<open>target\<close> minus today's weekday index. With the prefix \<open>this\<close> the result is today plus
  \<open>diff\<close> days, 7 more when \<open>diff < 0\<close>; it is never before today and falls on the named
  weekday. With any other prefix (\<open>last\<close>, \<open>on\<close>, or the default \<open>last\<close>) the result is
  today plus \<open>diff\<close> days, 7 fewer when \<open>diff \<ge> 0\<close>; it is strictly before today and falls
  on the named weekday. On a Wednesday, \<open>this monday\<close> is 5 days ahead and \<open>last monday\<close>
  is 2 days back.
\<close>

theorem get_date_for_day_of_week_offsets:
  assumes named: "indexOf days (toLowerCase day_name) = target" "target \<noteq> -1"
  shows "let diff = target - getDay tz today;
             this_date = get_date_for_day_of_week tz today day_name ''this'';
             last_date = get_date_for_day_of_week tz today day_name prefix_word
         in this_date = today + (if diff < 0 then diff + 7 else diff) * msPerDay
          \<and> today \<le> this_date
          \<and> getDay tz this_date = target
          \<and> (prefix_word \<noteq> ''this'' \<longrightarrow>
                last_date = today + (if diff \<ge> 0 then diff - 7 else diff) * msPerDay
              \<and> last_date < today
              \<and> getDay tz last_date = target)
          \<and> (getDay tz today = 3 \<and> target = 1 \<longrightarrow>
                this_date = today + 5 * msPerDay
              \<and> get_date_for_day_of_week tz today day_name ''last'' = today - 2 * msPerDay)"
proof -
  have t: "0 \<le> target" "target < 7"
    using indexOf_range [of days "toLowerCase day_name"] named by (simp_all add: days_def)
  have g: "0 \<le> getDay tz today" "getDay tz today < 7"
    using getDay_range [of tz today] by simp_all
  have pos: "0 < msPerDay" by (simp add: msPerDay_def)
  show ?thesis
    using t g pos named
    by (auto simp: get_date_for_day_of_week_def Let_def setDate_shift getDay_shift
                   mult_less_0_iff zero_le_mult_iff)
qed

theorem get_date_for_day_of_week_offsets_witness:
  "getDay 0 1704283200000 = 3
   \<and> get_date_for_day_of_week 0 1704283200000 ''Monday'' ''this'' = 1704283200000 + 5 * msPerDay
   \<and> get_date_for_day_of_week 0 1704283200000 ''Monday'' ''last'' = 1704283200000 - 2 * msPerDay
   \<and> get_date_for_day_of_week 0 1704283200000 ''Monday'' ''on'' < 1704283200000"
proof -
  have i: "indexOf days (toLowerCase ''Monday'') = 1"
    by (simp add: days_def toLowerCase_def lower_char_def
                  latin1_capitals_def latin1_smalls_def)
  have d: "getDay 0 1704283200000 = 3"
    by (simp add: getDay_def WeekDay_def Day_def LocalTime_def msPerDay_def)
  show ?thesis
    using get_date_for_day_of_week_offsets [OF i, of 0 1704283200000 "''on''"] d
    by (simp add: Let_def)
qed

subsection \<open>C3: the priority of the temporal categories\<close>

text \<open>
  Claim C3. The resolver tests its four categories in the fixed order yesterday, today,
  explicit date literal, day of week, and only the first category whose pattern matches is
  attempted: a text that matches the yesterday pattern resolves to the day before today
  whatever else it matches; otherwise a text that matches the today pattern resolves to
  today; otherwise a text that matches the explicit-date pattern resolves to whatever the
  captured literal parses to, and to no date when the literal does not parse, also when
  the day-of-week pattern matches the text; only a text that matches none of the first
  three is resolved as a day-of-week reference.
\<close>

theorem target_date_priority:
  "(rx_test yesterday_pattern q \<longrightarrow> target_date tz now q = Some (now - msPerDay))
   \<and> (\<not> rx_test yesterday_pattern q \<and> rx_test today_pattern q \<longrightarrow> target_date tz now q = Some now)
   \<and> (\<not> rx_test yesterday_pattern q \<and> \<not> rx_test today_pattern q \<and> rx_test specific_date_pattern q \<longrightarrow>
        target_date tz now q =
          (case truthy_group (rx_match specific_date_pattern q) 1 of
             Some literal \<Rightarrow> parse_date_string tz literal
           | None \<Rightarrow> None))
   \<and> (\<not> rx_test yesterday_pattern q \<and> \<not> rx_test today_pattern q \<and> rx_test specific_date_pattern q
        \<and> truthy_group (rx_match specific_date_pattern q) 1 = Some literal
        \<and> parse_date_string tz literal = None \<longrightarrow>
        target_date tz now q = None)
   \<and> (\<not> rx_test yesterday_pattern q \<and> \<not> rx_test today_pattern q \<and> \<not> rx_test specific_date_pattern q
        \<and> rx_test day_of_week_pattern q
        \<and> truthy_group (rx_match day_of_week_pattern q) 2 = Some day_name \<longrightarrow>
        target_date tz now q =
          Some (get_date_for_day_of_week tz now day_name
                  (case truthy_group (rx_match day_of_week_pattern q) 1 of
                     Some p \<Rightarrow> toLowerCase (trim p)
                   | None \<Rightarrow> ''last'')))
   \<and> (\<not> rx_test yesterday_pattern q \<and> \<not> rx_test today_pattern q \<and> \<not> rx_test specific_date_pattern q
        \<and> \<not> rx_test day_of_week_pattern q \<longrightarrow>
        target_date tz now q = None)"
proof -
  have "setDate tz now (getDate tz now - 1) = now - msPerDay"
    using setDate_shift [of tz now "-1"] by simp
  then show ?thesis
    by (simp add: target_date_def Let_def)
qed

theorem target_date_priority_witness:
  "rx_test yesterday_pattern ''what happened today and what happened yesterday''
   \<and> rx_test today_pattern ''what happened today and what happened yesterday''
   \<and> target_date 0 1704412800000 ''what happened today and what happened yesterday''
       = Some (1704412800000 - msPerDay)
   \<and> target_date 0 1704412800000 ''Today's notes from Monday'' = Some 1704412800000
   \<and> rx_test specific_date_pattern ''tell me about 2024-13-01 monday''
   \<and> rx_test day_of_week_pattern ''tell me about 2024-13-01 monday''
   \<and> truthy_group (rx_match specific_date_pattern ''tell me about 2024-13-01 monday'') 1 = Some ''2024-13-01''
   \<and> target_date 0 1704412800000 ''tell me about 2024-13-01 monday'' = None
   \<and> target_date 0 1704412800000 ''notes from Monday'' = Some (1704412800000 - 4 * msPerDay)
   \<and> target_date 0 1704412800000 ''hello there'' = None"
proof -
  let ?q1 = "''what happened today and what happened yesterday''"
  let ?q2 = "''Today's notes from Monday''"
  let ?q3 = "''tell me about 2024-13-01 monday''"
  let ?q4 = "''notes from Monday''"
  let ?q5 = "''hello there''"
  have y1: "rx_test yesterday_pattern ?q1" by code_simp
  have t1: "rx_test today_pattern ?q1" by code_simp
  have y2: "\<not> rx_test yesterday_pattern ?q2" by code_simp
  have t2: "rx_test today_pattern ?q2" by code_simp
  have y3: "\<not> rx_test yesterday_pattern ?q3" by code_simp
  have t3: "\<not> rx_test today_pattern ?q3" by code_simp
  have s3: "rx_test specific_date_pattern ?q3" by code_simp
  have d3: "rx_test day_of_week_pattern ?q3" by code_simp
  have g3: "truthy_group (rx_match specific_date_pattern ?q3) 1 = Some ''2024-13-01''" by code_simp
  have p3: "parse_date_string 0 ''2024-13-01'' = None" by code_simp
  have y4: "\<not> rx_test yesterday_pattern ?q4" by code_simp
  have t4: "\<not> rx_test today_pattern ?q4" by code_simp
  have s4: "\<not> rx_test specific_date_pattern ?q4" by code_simp
  have d4: "rx_test day_of_week_pattern ?q4" by code_simp
  have g4: "truthy_group (rx_match day_of_week_pattern ?q4) 2 = Some ''Monday''" by code_simp
  have h4: "truthy_group (rx_match day_of_week_pattern ?q4) 1 = None" by code_simp
  have w4: "get_date_for_day_of_week 0 1704412800000 ''Monday'' ''last'' = 1704412800000 - 4 * msPerDay"
    by code_simp
  have y5: "\<not> rx_test yesterday_pattern ?q5" by code_simp
  have t5: "\<not> rx_test today_pattern ?q5" by code_simp
  have s5: "\<not> rx_test specific_date_pattern ?q5" by code_simp
  have d5: "\<not> rx_test day_of_week_pattern ?q5" by code_simp
  have r1: "target_date 0 1704412800000 ?q1 = Some (1704412800000 - msPerDay)"
    using target_date_priority [of ?q1 0 1704412800000] y1 by blast
  have r2: "target_date 0 1704412800000 ?q2 = Some 1704412800000"
    using target_date_priority [of ?q2 0 1704412800000] y2 t2 by blast
  have r3: "target_date 0 1704412800000 ?q3 = None"
    using target_date_priority [of ?q3 0 1704412800000 "''2024-13-01''"] y3 t3 s3 g3 p3 by blast
  have r4: "target_date 0 1704412800000 ?q4 = Some (1704412800000 - 4 * msPerDay)"
    using target_date_priority [of ?q4 0 1704412800000 _ "''Monday''"] y4 t4 s4 d4 g4 h4 w4 by simp
  have r5: "target_date 0 1704412800000 ?q5 = None"
    using target_date_priority [of ?q5 0 1704412800000] y5 t5 s5 d5 by blast
  show ?thesis
    using y1 t1 r1 r2 s3 d3 g3 r3 r4 r5 by blast
qed

subsection \<open>C4: parsing explicit date literals\<close>

text \<open>
  Claim C4 says that a literal that does not denote a valid calendar date, for example
  one with month 13, parses to no date. For the literal \<open>13/1/2024\<close> the function returns
  a date, the first of January 2025: \<open>new Date(year, month, day)\<close> carries a month past
  December over into the next year, so the final \<open>isNaN\<close> test never fails on this path.
  The ISO path does reject month 13.
\<close>

theorem parse_date_string_month_13:
  "parse_date_string 0 ''13/1/2024'' = Some (new_Date_ymd 0 2024 12 1)
   \<and> map_option (\<lambda>d. (getFullYear 0 d, getMonth 0 d, getDate 0 d)) (parse_date_string 0 ''13/1/2024'')
       = Some (2025, 0, 1)
   \<and> parse_date_string 0 ''2024-13-01'' = None"
  by code_simp

subsection \<open>C2: the note locator\<close>

text \<open>
  The first candidate name, in the fixed order, that is the lower-cased basename of a
  document (the first hit), and the hits whose content can be read.
\<close>

definition hits :: "int \<Rightarrow> Vault \<Rightarrow> int \<Rightarrow> TFile list" where
  "hits tz v date =
     List.map_filter (\<lambda>format. file_map (getMarkdownFiles v) (toLowerCase format)) (formats tz date)"

definition first_hit :: "int \<Rightarrow> Vault \<Rightarrow> int \<Rightarrow> TFile option" where
  "first_hit tz v date = (case hits tz v date of [] \<Rightarrow> None | f # _ \<Rightarrow> Some f)"

definition readable_hits :: "int \<Rightarrow> Vault \<Rightarrow> int \<Rightarrow> TFile list" where
  "readable_hits tz v date = filter (\<lambda>f. read v f \<noteq> None) (hits tz v date)"

text \<open>
  A vault in which the note \<open>2024-01-05\<close> cannot be read, and one in which every note can.
\<close>

definition vault_unreadable :: Vault where
  "vault_unreadable =
     \<lparr>getMarkdownFiles = [\<lparr>basename = ''01-05-2024'', path = ''old/01-05-2024.md''\<rparr>,
                          \<lparr>basename = ''2024-01-05'', path = ''2024-01-05.md''\<rparr>],
      read = (\<lambda>f. if basename f = ''2024-01-05'' then None else Some ''walked the dog'')\<rparr>"

definition vault_plain :: Vault where
  "vault_plain =
     \<lparr>getMarkdownFiles = [\<lparr>basename = ''Ideas'', path = ''Ideas.md''\<rparr>,
                          \<lparr>basename = ''2024-01-05'', path = ''2024-01-05.md''\<rparr>],
      read = (\<lambda>f. Some (''text of '' @ basename f))\<rparr>"

definition vault_ideas :: Vault where
  "vault_ideas =
     \<lparr>getMarkdownFiles = [\<lparr>basename = ''Ideas'', path = ''Ideas.md''\<rparr>],
      read = (\<lambda>f. Some (''text of '' @ basename f))\<rparr>"

text \<open>
  Claim C2 says that the locator returns the document of the first hit. When the content
  of the first hit cannot be read, the locator goes on to the next candidate: for the date
  2024-01-05 the first hit is the note \<open>2024-01-05\<close>, and the locator returns the note
  \<open>01-05-2024\<close>.
\<close>

theorem find_daily_note_skips_unreadable:
  "first_hit 0 vault_unreadable 1704412800000 = Some \<lparr>basename = ''2024-01-05'', path = ''2024-01-05.md''\<rparr>
   \<and> find_daily_note 0 vault_unreadable 1704412800000
       = Some \<lparr>name = ''01-05-2024'', content = ''walked the dog''\<rparr>"
  by (simp add: first_hit_def hits_def find_daily_note_def formats_5_Jan_2024 vault_unreadable_def
                List.map_filter_simps file_map_def toLowerCase_def lower_char_def
                  latin1_capitals_def latin1_smalls_def)

text \<open>
  Claim C2, amended. The locator tries the candidate names \<open>YYYY-MM-DD\<close>, \<open>MM-DD-YYYY\<close>,
  \<open>daily/YYYY-MM-DD\<close>, \<open>journal/YYYY-MM-DD\<close> in that order, looks each up among the
  lower-cased basenames, and returns the first hit whose content can be read; a hit whose
  read fails is skipped. What it returns is always the basename and the content of a
  document of the vault whose lower-cased basename is a lower-cased candidate, so nothing
  is made up. It returns null when no candidate is the name of a document. When the
  first hit can be read, it is the first hit that is returned.
\<close>

theorem find_daily_note_first_readable:
  "find_daily_note tz v date =
     (case readable_hits tz v date of
        [] \<Rightarrow> None
      | f # _ \<Rightarrow> Some \<lparr>name = basename f, content = the (read v f)\<rparr>)
   \<and> (find_daily_note tz v date = Some note \<longrightarrow>
        (\<exists>f format. f \<in> set (getMarkdownFiles v) \<and> format \<in> set (formats tz date)
           \<and> toLowerCase (basename f) = toLowerCase format
           \<and> name note = basename f \<and> read v f = Some (content note)))
   \<and> ((\<forall>format \<in> set (formats tz date).
          toLowerCase format \<notin> set (map (\<lambda>f. toLowerCase (basename f)) (getMarkdownFiles v)))
        \<longrightarrow> find_daily_note tz v date = None)
   \<and> (first_hit tz v date = Some hit \<and> read v hit = Some text \<longrightarrow>
        find_daily_note tz v date = Some \<lparr>name = basename hit, content = text\<rparr>)"
proof -
  let ?m = "file_map (getMarkdownFiles v)"
  have eq: "find_daily_note tz v date =
     (case readable_hits tz v date of
        [] \<Rightarrow> None
      | f # _ \<Rightarrow> Some \<lparr>name = basename f, content = the (read v f)\<rparr>)"
    by (simp add: find_daily_note_def readable_hits_def hits_def find_in_formats_eq)
  have real: "\<exists>f format. f \<in> set (getMarkdownFiles v) \<and> format \<in> set (formats tz date)
           \<and> toLowerCase (basename f) = toLowerCase format
           \<and> name note = basename f \<and> read v f = Some (content note)"
    if "find_daily_note tz v date = Some note"
  proof -
    from that eq obtain f rest where r: "readable_hits tz v date = f # rest"
      and n: "note = \<lparr>name = basename f, content = the (read v f)\<rparr>"
      by (auto split: list.splits)
    from r have "f \<in> set (readable_hits tz v date)" by simp
    then have rd: "read v f \<noteq> None" and "f \<in> set (hits tz v date)"
      by (auto simp: readable_hits_def)
    then obtain format where fm: "format \<in> set (formats tz date)" "?m (toLowerCase format) = Some f"
      by (auto simp: hits_def List.map_filter_def)
    from file_map_Some [OF fm(2)] fm(1) rd n show ?thesis by auto
  qed
  have none: "find_daily_note tz v date = None"
    if "\<forall>format \<in> set (formats tz date).
          toLowerCase format \<notin> set (map (\<lambda>f. toLowerCase (basename f)) (getMarkdownFiles v))"
  proof -
    from that have "\<forall>format \<in> set (formats tz date). ?m (toLowerCase format) = None"
      by (simp add: file_map_None)
    then have "hits tz v date = []"
      by (auto simp: hits_def List.map_filter_def filter_empty_conv)
    then show ?thesis by (simp add: eq readable_hits_def)
  qed
  have first: "find_daily_note tz v date = Some \<lparr>name = basename hit, content = text\<rparr>"
    if "first_hit tz v date = Some hit" "read v hit = Some text"
  proof -
    from that(1) obtain rest where "hits tz v date = hit # rest"
      by (auto simp: first_hit_def split: list.splits)
    with that(2) show ?thesis by (simp add: eq readable_hits_def)
  qed
  from eq real none first show ?thesis by blast
qed

theorem find_daily_note_first_readable_witness:
  "formats 0 1704412800000 = [''2024-01-05'', ''01-05-2024'', ''daily/2024-01-05'', ''journal/2024-01-05'']
   \<and> first_hit 0 vault_plain 1704412800000 = Some \<lparr>basename = ''2024-01-05'', path = ''2024-01-05.md''\<rparr>
   \<and> find_daily_note 0 vault_plain 1704412800000
       = Some \<lparr>name = ''2024-01-05'', content = ''text of 2024-01-05''\<rparr>
   \<and> find_daily_note 0 vault_ideas 1704412800000 = None
   \<and> (\<exists>f format. f \<in> set (getMarkdownFiles vault_plain) \<and> format \<in> set (formats 0 1704412800000)
           \<and> toLowerCase (basename f) = toLowerCase format \<and> basename f = ''2024-01-05''
           \<and> read vault_plain f = Some ''text of 2024-01-05'')"
proof -
  let ?hit = "\<lparr>basename = ''2024-01-05'', path = ''2024-01-05.md''\<rparr>"
  let ?note = "\<lparr>name = ''2024-01-05'', content = ''text of 2024-01-05''\<rparr>"
  have h: "first_hit 0 vault_plain 1704412800000 = Some ?hit"
    by (simp add: first_hit_def hits_def formats_5_Jan_2024 vault_plain_def
                  List.map_filter_simps file_map_def toLowerCase_def lower_char_def
                  latin1_capitals_def latin1_smalls_def)
  have r: "read vault_plain ?hit = Some ''text of 2024-01-05''"
    by (simp add: vault_plain_def)
  have "find_daily_note 0 vault_plain 1704412800000 = Some \<lparr>name = basename ?hit, content = ''text of 2024-01-05''\<rparr>"
    using find_daily_note_first_readable [of 0 vault_plain 1704412800000 undefined ?hit "''text of 2024-01-05''"] h r
    by blast
  then have f1: "find_daily_note 0 vault_plain 1704412800000 = Some ?note"
    by simp
  have nm: "\<forall>format \<in> set (formats 0 1704412800000).
              toLowerCase format \<notin> set (map (\<lambda>f. toLowerCase (basename f)) (getMarkdownFiles vault_ideas))"
    by (simp add: formats_5_Jan_2024 vault_ideas_def toLowerCase_def lower_char_def
                  latin1_capitals_def latin1_smalls_def)
  have f2: "find_daily_note 0 vault_ideas 1704412800000 = None"
    using find_daily_note_first_readable [of 0 vault_ideas 1704412800000 undefined] nm by blast
  have "\<exists>f format. f \<in> set (getMarkdownFiles vault_plain) \<and> format \<in> set (formats 0 1704412800000)
           \<and> toLowerCase (basename f) = toLowerCase format \<and> name ?note = basename f
           \<and> read vault_plain f = Some (content ?note)"
    using find_daily_note_first_readable [of 0 vault_plain 1704412800000 ?note undefined undefined] f1
    by blast
  then have f3: "\<exists>f format. f \<in> set (getMarkdownFiles vault_plain) \<and> format \<in> set (formats 0 1704412800000)
           \<and> toLowerCase (basename f) = toLowerCase format \<and> basename f = ''2024-01-05''
           \<and> read vault_plain f = Some ''text of 2024-01-05''"
    by (simp add: eq_commute [of "''2024-01-05''"])
  show ?thesis using formats_5_Jan_2024 h f1 f2 f3 by blast
qed

subsection \<open>C10: a failed model call and the saved history\<close>

definition fresh_view :: ViewState where
  "fresh_view = \<lparr>chatHistory = [], conversation_id = [], awaiting_user_response = False, stored = None\<rparr>"

text \<open>
  Claim C10 says that a failed call is surfaced to the caller as an error and that the
  user turn of that send is not committed to the saved history until a call succeeds.
  After a send that fails with status 500, the caller holds the same result as after a
  send without an API key (empty content; the message of the error is only shown in a
  notice), the user turn is still in the history of the view, and closing the view writes
  it to the saved history although no call has succeeded.
\<close>

theorem failed_send_is_saved_on_close:
  "fst (fst (sendToPerplexity ''key'' ''sonar'' ''c1'' (ApiFailure ''API error: 500'') ''hello'' fresh_view))
     = fst (fst (sendToPerplexity [] ''sonar'' ''c1'' (ApiFailure ''API error: 500'') ''hello'' fresh_view))
   \<and> fst (fst (sendToPerplexity ''key'' ''sonar'' ''c1'' (ApiFailure ''API error: 500'') ''hello'' fresh_view)) = []
   \<and> stored (snd (sendToPerplexity ''key'' ''sonar'' ''c1'' (ApiFailure ''API error: 500'') ''hello'' fresh_view))
     = None
   \<and> map_option chat_history
       (stored (onClose (snd (sendToPerplexity ''key'' ''sonar'' ''c1'' (ApiFailure ''API error: 500'') ''hello''
                                 fresh_view))))
     = Some [(User, ''hello'')]"
  by (simp add: sendToPerplexity_def fresh_view_def onClose_def save_chat_history_def Let_def)

text \<open>
  Claim C10, amended. When the model call fails, \<open>sendToPerplexity\<close> does not write the
  saved data, so what is saved is what was saved before the send; it returns an empty
  content and shows the message of the error in a notice rather than raising it. The user
  turn stays at the end of the history of the view, and the next save, whether it follows
  a call that succeeds or the closing of the view, writes that turn to the saved history.
\<close>

theorem failed_send_keeps_saved_data:
  assumes "apiKey \<noteq> []"
    and "sendToPerplexity apiKey currentModel fresh_id (ApiFailure error_message) message st = (result, st')"
  shows "stored st' = stored st
       \<and> result = ([], [''Error: '' @ error_message])
       \<and> chatHistory st' = chatHistory st @ [(User, message)]
       \<and> map_option chat_history (stored (onClose st')) = Some (chatHistory st @ [(User, message)])
       \<and> map_option chat_history
            (stored (snd (sendToPerplexity apiKey currentModel fresh_id (ApiSuccess raw) message' st')))
          = Some (chatHistory st @ [(User, message), (User, message'),
                                    (Assistant, answer_content currentModel raw)])"
  using assms
  by (auto simp: sendToPerplexity_def onClose_def save_chat_history_def Let_def)

theorem failed_send_keeps_saved_data_witness:
  "stored (snd (sendToPerplexity ''key'' ''sonar'' ''c1'' (ApiFailure ''API error: 500'') ''hello'' fresh_view))
     = stored fresh_view
   \<and> chatHistory (snd (sendToPerplexity ''key'' ''sonar'' ''c1'' (ApiFailure ''API error: 500'') ''hello'' fresh_view))
     = [(User, ''hello'')]
   \<and> fst (sendToPerplexity ''key'' ''sonar'' ''c1'' (ApiFailure ''API error: 500'') ''hello'' fresh_view)
     = ([], [''Error: API error: 500''])"
proof -
  obtain result st' where
    s: "sendToPerplexity ''key'' ''sonar'' ''c1'' (ApiFailure ''API error: 500'') ''hello'' fresh_view = (result, st')"
    by (cases "sendToPerplexity ''key'' ''sonar'' ''c1'' (ApiFailure ''API error: 500'') ''hello'' fresh_view")
  have k: "''key'' \<noteq> []" by simp
  from failed_send_keeps_saved_data [OF k s]
  have "stored st' = stored fresh_view" "result = ([], [''Error: '' @ ''API error: 500''])"
    "chatHistory st' = chatHistory fresh_view @ [(User, ''hello'')]"
    by blast+
  with s show ?thesis by (simp add: fresh_view_def)
qed

subsection \<open>C1: the order of the resolved documents\<close>

text \<open>
  A vault with the document \<open>Daily Log\<close> and the note of 2024-01-04, the day before the
  reference day 2024-01-05.
\<close>

definition vault_log :: Vault where
  "vault_log =
     \<lparr>getMarkdownFiles = [\<lparr>basename = ''Daily Log'', path = ''Daily Log.md''\<rparr>,
                          \<lparr>basename = ''2024-01-04'', path = ''2024-01-04.md''\<rparr>],
      read = (\<lambda>f. Some (''text of '' @ basename f))\<rparr>"

lemma extract_daily_log:
  "extractFileReferences ''@`Daily Log` what happened yesterday'' = [''Daily Log'']"
  by code_simp

lemma yesterday_daily_log:
  "check_time_related_query 0 1704412800000 vault_log ''@`Daily Log` what happened yesterday''
     = [\<lparr>name = ''2024-01-04'', content = ''text of 2024-01-04''\<rparr>]"
proof -
  have y: "rx_test yesterday_pattern ''@`Daily Log` what happened yesterday''"
    by code_simp
  have t: "target_date 0 1704412800000 ''@`Daily Log` what happened yesterday'' = Some 1704326400000"
    using y setDate_shift [of 0 1704412800000 "-1"] by (simp add: target_date_def msPerDay_def)
  have "getFullYear 0 1704326400000 = 2024" "getMonth 0 1704326400000 = 0" "getDate 0 1704326400000 = 4"
    by (simp_all add: date_eval)
  then have f: "formats 0 1704326400000
                  = [''2024-01-04'', ''01-04-2024'', ''daily/2024-01-04'', ''journal/2024-01-04'']"
    by (simp add: formats_def ymd_string_def string_eval)
  show ?thesis
    by (simp add: check_time_related_query_def t find_daily_note_def f vault_log_def file_map_def
                  toLowerCase_def lower_char_def
                  latin1_capitals_def latin1_smalls_def)
qed

lemma explicit_daily_log:
  "resolve_reference vault_log ''Daily Log'' = [\<lparr>name = ''Daily Log'', content = ''text of Daily Log''\<rparr>]"
  by (simp add: resolve_reference_def vault_log_def same_name_def read_named_def toLowerCase_def lower_char_def
                  latin1_capitals_def latin1_smalls_def)

text \<open>
  Claim C1 says that the resolved list holds the explicit documents first and the
  temporal document after them, \<open>[Daily Log, yesterday's note]\<close> for the input of the
  example. The program fills the list with the temporal document first: the list of the
  example is \<open>[yesterday's note, Daily Log]\<close>.
\<close>

theorem includedFiles_temporal_first_example:
  "map name (includedFiles 0 1704412800000 False None vault_log ''@`Daily Log` what happened yesterday'')
     = [''2024-01-04'', ''Daily Log'']
   \<and> map name (includedFiles 0 1704412800000 False None vault_log ''@`Daily Log` what happened yesterday'')
     \<noteq> [''Daily Log'', ''2024-01-04'']"
  by (simp add: includedFiles_def time_related_part_def explicit_part_def current_part_def
                extract_daily_log yesterday_daily_log explicit_daily_log same_name_def
                toLowerCase_def lower_char_def
                  latin1_capitals_def latin1_smalls_def)

text \<open>
  Claim C1, amended. When the temporal resolution locates a document that no explicit
  mention names, and every explicit mention resolves to a document that can be read, the
  resolved list is the temporal document first, then the explicit documents in the order
  of their mentions (one for each mention), then the current document if it is to be
  included: temporal before explicit.
\<close>

theorem includedFiles_temporal_first:
  assumes "check_time_related_query tz now v userInput = [temporal]"
    and "\<not> list_ex (\<lambda>ref. same_name ref (name temporal)) (extractFileReferences userInput)"
    and "\<forall>ref \<in> set (extractFileReferences userInput). \<exists>doc. resolve_reference v ref = [doc]"
  shows "includedFiles tz now includeCurrentFile activeFile v userInput
           = temporal # explicit_part v userInput @ current_part includeCurrentFile activeFile v userInput
       \<and> length (explicit_part v userInput) = length (extractFileReferences userInput)
       \<and> (\<forall>i < length (extractFileReferences userInput).
             resolve_reference v (extractFileReferences userInput ! i) = [explicit_part v userInput ! i])
       \<and> includedFiles tz now False activeFile v userInput = temporal # explicit_part v userInput"
proof -
  have one: "(\<forall>ref \<in> set refs. \<exists>doc. resolve_reference v ref = [doc]) \<Longrightarrow>
             length (concat (map (resolve_reference v) refs)) = length refs
           \<and> (\<forall>i < length refs. resolve_reference v (refs ! i) = [concat (map (resolve_reference v) refs) ! i])"
    for refs
  proof (induction refs)
    case Nil
    then show ?case by simp
  next
    case (Cons r refs)
    then obtain doc where d: "resolve_reference v r = [doc]" by auto
    from Cons have ih: "length (concat (map (resolve_reference v) refs)) = length refs"
      "\<forall>i < length refs. resolve_reference v (refs ! i) = [concat (map (resolve_reference v) refs) ! i]"
      by auto
    show ?case
      using d ih by (auto simp: nth_Cons split: nat.splits)
  qed
  from assms(1,2) have "time_related_part tz now v userInput = [temporal]"
    by (simp add: time_related_part_def)
  with one [OF assms(3)] show ?thesis
    by (simp add: includedFiles_def explicit_part_def current_part_def)
qed

theorem includedFiles_temporal_first_witness:
  "includedFiles 0 1704412800000 False None vault_log ''@`Daily Log` what happened yesterday''
     = [\<lparr>name = ''2024-01-04'', content = ''text of 2024-01-04''\<rparr>,
        \<lparr>name = ''Daily Log'', content = ''text of Daily Log''\<rparr>]
   \<and> displayText 0 1704412800000 False None vault_log ''@`Daily Log` what happened yesterday''
     = WithFiles ''what happened yesterday'' [''2024-01-04'', ''Daily Log'']"
proof -
  let ?q = "''@`Daily Log` what happened yesterday''"
  let ?t = "\<lparr>name = ''2024-01-04'', content = ''text of 2024-01-04''\<rparr>"
  have a: "\<not> list_ex (\<lambda>ref. same_name ref (name ?t)) (extractFileReferences ?q)"
    by (simp add: extract_daily_log same_name_def toLowerCase_def lower_char_def
                  latin1_capitals_def latin1_smalls_def)
  have b: "\<forall>ref \<in> set (extractFileReferences ?q). \<exists>doc. resolve_reference vault_log ref = [doc]"
    by (simp add: extract_daily_log explicit_daily_log)
  have e: "explicit_part vault_log ?q = [\<lparr>name = ''Daily Log'', content = ''text of Daily Log''\<rparr>]"
    by (simp add: explicit_part_def extract_daily_log explicit_daily_log)
  have i: "includedFiles 0 1704412800000 False None vault_log ?q = ?t # explicit_part vault_log ?q"
    using includedFiles_temporal_first [OF yesterday_daily_log a b, of False None] by blast
  have r: "removeFileReferences ?q = ''what happened yesterday''"
    by code_simp
  show ?thesis
    using i e r by (simp add: displayText_def)
qed

subsection \<open>C6: extracting file references\<close>

text \<open>
  Claim C6 says that the tokens come in the order of their first occurrence in the text,
  that a mention in backticks yields the contents of the span verbatim, and that a bare
  mention yields the run of characters that are not white space, \<open>@\<close> or a backtick, with
  sentence punctuation stripped only from its end. In the program the mentions in
  backticks come before all bare mentions (\<open>@foo\<close> before \<open>@`bar`\<close> gives \<open>bar, foo\<close>),
  the contents of a span are trimmed, and a bare token ends at the first punctuation mark
  (\<open>@a.b\<close> gives \<open>a\<close>, not \<open>a.b\<close>).
\<close>

theorem extractFileReferences_examples:
  "extractFileReferences ''@foo @`bar`'' = [''bar'', ''foo'']
   \<and> extractFileReferences ''@` bar `'' = [''bar'']
   \<and> extractFileReferences ''see @a.b now'' = [''a'']"
  by code_simp

text \<open>
  Claim C6, amended. For every text the result has no duplicates. It lists first the
  mentions in backticks, in the order of their first occurrence, and then the bare
  mentions that are not yet listed, in the order of their first occurrence. A mention in
  backticks yields the contents of the span with white space trimmed at both ends, if
  anything is left: the token is not empty, holds no backtick, and neither starts nor
  ends with white space. A bare mention yields the run of characters after \<open>@\<close> up to the
  first white space, \<open>@\<close>, backtick or punctuation mark \<open>. , ; ! ?\<close>: the token is not
  empty and holds none of these characters. A text that starts with such a mention has
  its token in the result.

  Each of the two lists of mentions is found by a scan from left to right. The scan for
  the bare mentions passes over every character that is not an \<open>@\<close> followed by a
  character of a token, takes the token after such an \<open>@\<close>, as long as possible, and
  goes on behind the token. The scan for the mentions in backticks passes over every
  character that is not an \<open>@\<close> followed by a backtick, a non-empty span without backtick
  and a backtick, takes the trimmed span after such an \<open>@\<close>, if it is not empty, and goes
  on behind the closing backtick.
\<close>

theorem extractFileReferences_tokens_order:
  "distinct (extractFileReferences text)
   \<and> extractFileReferences text = rev (remdups (rev (backtick_tokens text @ simple_tokens text)))
   \<and> (\<forall>w \<in> set (backtick_tokens text).
         w \<noteq> [] \<and> CHR ''`'' \<notin> set w \<and> \<not> is_space (hd w) \<and> \<not> is_space (last w))
   \<and> (\<forall>w \<in> set (simple_tokens text). w \<noteq> [] \<and> list_all simple_char w)
   \<and> (tok \<noteq> [] \<and> list_all simple_char tok \<and> (rest = [] \<or> \<not> simple_char (hd rest)) \<longrightarrow>
         tok \<in> set (extractFileReferences (CHR ''@'' # tok @ rest)))
   \<and> (trim span \<noteq> [] \<and> CHR ''`'' \<notin> set span \<longrightarrow>
         hd (extractFileReferences (CHR ''@'' # CHR ''`'' # span @ CHR ''`'' # rest)) = trim span)
   \<and> simple_tokens [] = []
   \<and> backtick_tokens [] = []
   \<and> (\<not> (x = CHR ''@'' \<and> xs \<noteq> [] \<and> simple_char (hd xs)) \<longrightarrow>
         simple_tokens (x # xs) = simple_tokens xs)
   \<and> (tok \<noteq> [] \<and> list_all simple_char tok \<and> (rest = [] \<or> \<not> simple_char (hd rest)) \<longrightarrow>
         simple_tokens (CHR ''@'' # tok @ rest) = tok # simple_tokens rest)
   \<and> (\<not> (x = CHR ''@'' \<and> (\<exists>sp r. xs = CHR ''`'' # sp @ CHR ''`'' # r \<and> sp \<noteq> [] \<and> CHR ''`'' \<notin> set sp)) \<longrightarrow>
         backtick_tokens (x # xs) = backtick_tokens xs)
   \<and> (span \<noteq> [] \<and> CHR ''`'' \<notin> set span \<longrightarrow>
         backtick_tokens (CHR ''@'' # CHR ''`'' # span @ CHR ''`'' # rest)
           = (if trim span \<noteq> [] then [trim span] else []) @ backtick_tokens rest)"
proof -
  have d: "distinct (extractFileReferences text)"
    by (simp add: extractFileReferences_tokens distinct_foldl_set_add)
  have o: "extractFileReferences text = rev (remdups (rev (backtick_tokens text @ simple_tokens text)))"
    by (simp only: extractFileReferences_tokens foldl_set_add_Nil)
  have s: "\<forall>w \<in> set (simple_tokens text). w \<noteq> [] \<and> list_all simple_char w"
    unfolding simple_tokens_def by (rule simple_tokens_shape)
  have t: "tok \<in> set (extractFileReferences (CHR ''@'' # tok @ rest))"
    if "tok \<noteq> []" "list_all simple_char tok" "rest = [] \<or> \<not> simple_char (hd rest)"
    using simple_tokens_at [OF that] by (simp add: extractFileReferences_tokens set_foldl_set_add)
  have b: "hd (extractFileReferences (CHR ''@'' # CHR ''`'' # span @ CHR ''`'' # rest)) = trim span"
    if "trim span \<noteq> []" "CHR ''`'' \<notin> set span"
  proof -
    let ?text = "CHR ''@'' # CHR ''`'' # span @ CHR ''`'' # rest"
    from backtick_tokens_at [OF that, of rest] obtain more where
      "backtick_tokens ?text = trim span # more"
      by (cases "backtick_tokens ?text") auto
    then show ?thesis
      by (simp add: extractFileReferences_tokens set_add_def) (simp add: foldl_set_add_first)
  qed
  have t': "tok \<noteq> [] \<and> list_all simple_char tok \<and> (rest = [] \<or> \<not> simple_char (hd rest)) \<longrightarrow>
         tok \<in> set (extractFileReferences (CHR ''@'' # tok @ rest))"
    using t by blast
  have b': "trim span \<noteq> [] \<and> CHR ''`'' \<notin> set span \<longrightarrow>
         hd (extractFileReferences (CHR ''@'' # CHR ''`'' # span @ CHR ''`'' # rest)) = trim span"
    using b by blast
  have ss: "\<not> (x = CHR ''@'' \<and> xs \<noteq> [] \<and> simple_char (hd xs)) \<longrightarrow>
         simple_tokens (x # xs) = simple_tokens xs"
    by (rule impI) (rule simple_tokens_skip)
  have sm: "tok \<noteq> [] \<and> list_all simple_char tok \<and> (rest = [] \<or> \<not> simple_char (hd rest)) \<longrightarrow>
         simple_tokens (CHR ''@'' # tok @ rest) = tok # simple_tokens rest"
    by (simp add: simple_tokens_mention)
  have bs: "\<not> (x = CHR ''@'' \<and> (\<exists>sp r. xs = CHR ''`'' # sp @ CHR ''`'' # r \<and> sp \<noteq> [] \<and> CHR ''`'' \<notin> set sp)) \<longrightarrow>
         backtick_tokens (x # xs) = backtick_tokens xs"
    by (rule impI) (rule backtick_tokens_skip)
  have bm: "span \<noteq> [] \<and> CHR ''`'' \<notin> set span \<longrightarrow>
         backtick_tokens (CHR ''@'' # CHR ''`'' # span @ CHR ''`'' # rest)
           = (if trim span \<noteq> [] then [trim span] else []) @ backtick_tokens rest"
  proof
    assume h: "span \<noteq> [] \<and> CHR ''`'' \<notin> set span"
    from h [THEN conjunct1] h [THEN conjunct2]
    show "backtick_tokens (CHR ''@'' # CHR ''`'' # span @ CHR ''`'' # rest)
           = (if trim span \<noteq> [] then [trim span] else []) @ backtick_tokens rest"
      by (rule backtick_tokens_mention)
  qed
  show ?thesis
    by (rule conjI, rule d, rule conjI, rule o, rule conjI, rule backtick_tokens_shape,
        rule conjI, rule s, rule conjI, rule t', rule conjI, rule b',
        rule conjI, rule simple_tokens_Nil, rule conjI, rule backtick_tokens_Nil,
        rule conjI, rule ss, rule conjI, rule sm, rule conjI, rule bs, rule bm)
qed

theorem extractFileReferences_tokens_order_witness:
  "extractFileReferences ''@foo, @`my note` and @foo @bar'' = [''my note'', ''foo'', ''bar'']
   \<and> backtick_tokens ''@foo, @`my note` and @foo @bar'' = [''my note'']
   \<and> simple_tokens ''@foo, @`my note` and @foo @bar'' = [''foo'', ''foo'', ''bar'']
   \<and> ''foo'' \<in> set (extractFileReferences (CHR ''@'' # ''foo'' @ '', and more''))
   \<and> hd (extractFileReferences (CHR ''@'' # CHR ''`'' # '' my note '' @ CHR ''`'' # '' now'')) = ''my note''
   \<and> simple_tokens ''a @b'' = [''b'']
   \<and> backtick_tokens ''x@` n `'' = [''n'']"
proof -
  let ?text = "''@foo, @`my note` and @foo @bar''"
  note E = extractFileReferences_tokens_order
  have b: "backtick_tokens ?text = [''my note'']"
    by code_simp
  have s: "simple_tokens ?text = [''foo'', ''foo'', ''bar'']"
    by code_simp
  have e: "extractFileReferences ?text = [''my note'', ''foo'', ''bar'']"
    by (simp only: E [of ?text, THEN conjunct2, THEN conjunct1] b s) simp
  have t: "''foo'' \<noteq> [] \<and> list_all simple_char ''foo''
           \<and> ('', and more'' = [] \<or> \<not> simple_char (hd '', and more''))"
    by (simp add: simple_char_def is_space_def)
  have p: "trim '' my note '' \<noteq> [] \<and> CHR ''`'' \<notin> set '' my note ''"
    by (simp add: trim_def is_space_def)
  have q: "trim '' my note '' = ''my note''"
    by (simp add: trim_def is_space_def)
  have f: "''foo'' \<in> set (extractFileReferences (CHR ''@'' # ''foo'' @ '', and more''))"
    using E [of _ "''foo''" "'', and more''", THEN conjunct2, THEN conjunct2, THEN conjunct2,
             THEN conjunct2, THEN conjunct1] t
    by (rule mp)
  have "hd (extractFileReferences (CHR ''@'' # CHR ''`'' # '' my note '' @ CHR ''`'' # '' now''))
                   = trim '' my note ''"
    using E [of _ _ "'' now''" "'' my note ''", THEN conjunct2, THEN conjunct2, THEN conjunct2,
             THEN conjunct2, THEN conjunct2, THEN conjunct1] p
    by (rule mp)
  then have h: "hd (extractFileReferences (CHR ''@'' # CHR ''`'' # '' my note '' @ CHR ''`'' # '' now''))
                   = ''my note''"
    by (simp only: q)
  have s0: "simple_tokens [] = []"
    by (rule E [THEN conjunct2, THEN conjunct2, THEN conjunct2, THEN conjunct2, THEN conjunct2, THEN conjunct2, THEN conjunct1])
  have b0: "backtick_tokens [] = []"
    by (rule E [THEN conjunct2, THEN conjunct2, THEN conjunct2, THEN conjunct2, THEN conjunct2, THEN conjunct2, THEN conjunct2, THEN conjunct1])
  have k1: "\<not> (CHR ''a'' = CHR ''@'' \<and> '' @b'' \<noteq> [] \<and> simple_char (hd '' @b''))"
    by simp
  have s1: "simple_tokens (CHR ''a'' # '' @b'') = simple_tokens '' @b''"
    using E [of _ _ _ _ "CHR ''a''" "'' @b''", THEN conjunct2, THEN conjunct2, THEN conjunct2, THEN conjunct2, THEN conjunct2, THEN conjunct2,
             THEN conjunct2, THEN conjunct2, THEN conjunct1] k1
    by (rule mp)
  have k2: "\<not> (CHR '' '' = CHR ''@'' \<and> ''@b'' \<noteq> [] \<and> simple_char (hd ''@b''))"
    by simp
  have s2: "simple_tokens (CHR '' '' # ''@b'') = simple_tokens ''@b''"
    using E [of _ _ _ _ "CHR '' ''" "''@b''", THEN conjunct2, THEN conjunct2, THEN conjunct2, THEN conjunct2, THEN conjunct2, THEN conjunct2,
             THEN conjunct2, THEN conjunct2, THEN conjunct1] k2
    by (rule mp)
  have k3: "''b'' \<noteq> [] \<and> list_all simple_char ''b'' \<and> ([] = [] \<or> \<not> simple_char (hd []))"
    by (simp add: simple_char_def is_space_def)
  have s3: "simple_tokens (CHR ''@'' # ''b'' @ []) = ''b'' # simple_tokens []"
    using E [of _ "''b''" "[]", THEN conjunct2, THEN conjunct2, THEN conjunct2, THEN conjunct2, THEN conjunct2, THEN conjunct2,
             THEN conjunct2, THEN conjunct2, THEN conjunct2, THEN conjunct1] k3
    by (rule mp)
  have st: "simple_tokens ''a @b'' = [''b'']"
    using s1 s2 s3 s0 by simp
  have k4: "\<not> (CHR ''x'' = CHR ''@''
              \<and> (\<exists>sp r. ''@` n `'' = CHR ''`'' # sp @ CHR ''`'' # r \<and> sp \<noteq> [] \<and> CHR ''`'' \<notin> set sp))"
    by simp
  have b1: "backtick_tokens (CHR ''x'' # ''@` n `'') = backtick_tokens ''@` n `''"
    using E [of _ _ _ _ "CHR ''x''" "''@` n `''", THEN conjunct2, THEN conjunct2, THEN conjunct2, THEN conjunct2, THEN conjunct2, THEN conjunct2,
             THEN conjunct2, THEN conjunct2, THEN conjunct2,
             THEN conjunct2, THEN conjunct1] k4
    by (rule mp)
  have k5: "'' n '' \<noteq> [] \<and> CHR ''`'' \<notin> set '' n ''"
    by simp
  have b2: "backtick_tokens (CHR ''@'' # CHR ''`'' # '' n '' @ CHR ''`'' # [])
              = (if trim '' n '' \<noteq> [] then [trim '' n ''] else []) @ backtick_tokens []"
    using E [of _ _ "[]" "'' n ''", THEN conjunct2, THEN conjunct2, THEN conjunct2, THEN conjunct2, THEN conjunct2, THEN conjunct2,
             THEN conjunct2, THEN conjunct2, THEN conjunct2, THEN conjunct2,
             THEN conjunct2] k5
    by (rule mp)
  have q2: "trim '' n '' = ''n''"
    by (simp add: trim_def is_space_def)
  have bt: "backtick_tokens ''x@` n `'' = [''n'']"
    using b1 b2 b0 by (simp add: q2)
  show ?thesis
    by (rule conjI, rule e, rule conjI, rule b, rule conjI, rule s, rule conjI, rule f,
        rule conjI, rule h, rule conjI, rule st, rule bt)
qed

subsection \<open>C8: extraction after stripping\<close>




subsection \<open>C7: the reference stripper\<close>

text \<open>
  The stripper as the claim describes it: every mention in backticks is removed, then
  every bare mention of an extracted token, longest token first and only at a token
  boundary, then white space is collapsed and the text is trimmed.
\<close>

definition removeFileReferences_spec :: "string \<Rightarrow> string" where
  "removeFileReferences_spec text =
     (let cleaned_text = replace_all backtick_mention [] None text;
          extracted_refs = sort_key (\<lambda>ref. - int (length ref)) (extractFileReferences text);
          cleaned_text = foldl (\<lambda>cleaned ref. replace_all (ref_regex ref) [] None cleaned)
                               cleaned_text extracted_refs
      in trim (replace_all spaces '' '' None cleaned_text))"

text \<open>
  Claim C7 says that for every text the remaining bare mentions are removed when they
  are followed by white space, the end of the text or sentence punctuation. The program
  skips a token that also occurs in the text between backticks: in \<open>@`foo` @foo\<close> the
  bare mention \<open>@foo\<close> stands at the end of the text and is left in place.
\<close>

theorem removeFileReferences_keeps_bare_mention:
  "removeFileReferences ''@`foo` @foo'' = ''@foo''
   \<and> removeFileReferences_spec ''@`foo` @foo'' = []"
  by code_simp

text \<open>
  Claim C7, amended. For every text the stripper removes the mentions in backticks,
  then goes through the extracted tokens, longest first, and removes the bare mentions of
  each token that does not also occur in the text between backticks, only where the
  mention is followed by white space, the end of the text or sentence punctuation; then
  it replaces every run of white space by one space and trims the text. So the result has
  no white space at either end, no two white-space characters in a row, and no white
  space but the space character; and it is the text that the claim describes whenever no
  token occurs in the text between backticks as well. For every text it is the text that
  the claim describes with the tokens that also occur between backticks left out of the
  list of tokens. A mention in backticks is an \<open>@\<close>, a backtick, a non-empty span without
  backtick and a backtick. In particular, for every bare token \<open>B\<close>, whatever prefixes of
  \<open>B\<close> are tokens, stripping \<open>@B hello\<close> leaves \<open>hello\<close>.
\<close>

theorem removeFileReferences_amended:
  "removeFileReferences text
     = trim (collapse_ws (foldl (remove_ref text) (replace_all backtick_mention [] None text)
                            (sort_key (\<lambda>ref. - int (length ref)) (extractFileReferences text))))
   \<and> sorted (map (\<lambda>ref. - int (length ref))
                 (sort_key (\<lambda>ref. - int (length ref)) (extractFileReferences text)))
   \<and> remove_ref text cleaned ref
       = (if includes_str text (''@`'' @ ref @ ''`'') then cleaned
          else replace_all (ref_regex ref) [] None cleaned)
   \<and> (first_match (ref_regex ref) (pv, s, []) \<noteq> None
        \<longleftrightarrow> prefix (CHR ''@'' # ref) s \<and> boundary (drop (Suc (length ref)) s))
   \<and> (removeFileReferences text = []
        \<or> \<not> is_space (hd (removeFileReferences text)) \<and> \<not> is_space (last (removeFileReferences text)))
   \<and> single_spaced (removeFileReferences text)
   \<and> (\<forall>c \<in> set (removeFileReferences text). is_space c \<longrightarrow> c = CHR '' '')
   \<and> ((\<forall>ref \<in> set (extractFileReferences text). \<not> includes_str text (''@`'' @ ref @ ''`''))
        \<longrightarrow> removeFileReferences text = removeFileReferences_spec text)
   \<and> (B \<noteq> [] \<and> list_all simple_char B \<longrightarrow> removeFileReferences (CHR ''@'' # B @ '' hello'') = ''hello'')
   \<and> removeFileReferences text
       = trim (collapse_ws
           (foldl (\<lambda>cleaned ref. replace_all (ref_regex ref) [] None cleaned)
              (replace_all backtick_mention [] None text)
              (filter (\<lambda>ref. \<not> includes_str text (''@`'' @ ref @ ''`''))
                 (sort_key (\<lambda>ref. - int (length ref)) (extractFileReferences text)))))
   \<and> (span \<noteq> [] \<and> CHR ''`'' \<notin> set span \<longrightarrow>
        replace_all backtick_mention [] pv (CHR ''@'' # CHR ''`'' # span @ CHR ''`'' # rest)
          = replace_all backtick_mention [] (Some CHR ''`'') rest)
   \<and> (\<not> (x = CHR ''@'' \<and> (\<exists>sp r. xs = CHR ''`'' # sp @ CHR ''`'' # r \<and> sp \<noteq> [] \<and> CHR ''`'' \<notin> set sp)) \<longrightarrow>
        replace_all backtick_mention [] pv (x # xs) = x # replace_all backtick_mention [] (Some x) xs)"
proof -
  let ?refs = "sort_key (\<lambda>ref. - int (length ref)) (extractFileReferences text)"
  let ?cleaned = "foldl (remove_ref text) (replace_all backtick_mention [] None text) ?refs"
  have eq: "removeFileReferences text = trim (collapse_ws ?cleaned)"
    by (simp add: removeFileReferences_def Let_def replace_all_spaces)
  have srt: "sorted (map (\<lambda>ref. - int (length ref)) ?refs)"
    by (rule sorted_sort_key)
  have guard: "remove_ref text cleaned ref
       = (if includes_str text (''@`'' @ ref @ ''`'') then cleaned
          else replace_all (ref_regex ref) [] None cleaned)"
    by (simp add: remove_ref_def)
  have bnd: "first_match (ref_regex ref) (pv, s, []) \<noteq> None
        \<longleftrightarrow> prefix (CHR ''@'' # ref) s \<and> boundary (drop (Suc (length ref)) s)"
    by (simp add: first_match_ref_regex)
  have trimmed: "removeFileReferences text = []
        \<or> \<not> is_space (hd (removeFileReferences text)) \<and> \<not> is_space (last (removeFileReferences text))"
    unfolding eq using trim_shape by blast
  have single: "single_spaced (removeFileReferences text)"
    unfolding eq by (rule single_spaced_trim) (rule single_spaced_collapse_ws)
  have sp: "\<forall>c \<in> set (removeFileReferences text). is_space c \<longrightarrow> c = CHR '' ''"
    unfolding eq using set_trim spaces_collapse_ws by blast
  have spec: "removeFileReferences text = removeFileReferences_spec text"
    if a: "\<forall>ref \<in> set (extractFileReferences text). \<not> includes_str text (''@`'' @ ref @ ''`'')"
  proof -
    have "foldl (remove_ref text) c refs
            = foldl (\<lambda>cleaned ref. replace_all (ref_regex ref) [] None cleaned) c refs"
      if "\<forall>ref \<in> set refs. \<not> includes_str text (''@`'' @ ref @ ''`'')" for c refs
      using that by (induction refs arbitrary: c) (simp_all add: remove_ref_def)
    from this [of ?refs] a show ?thesis
      by (simp add: removeFileReferences_def removeFileReferences_spec_def Let_def)
  qed
  have ex: "removeFileReferences (CHR ''@'' # B @ '' hello'') = ''hello''"
    if b: "B \<noteq> []" "list_all simple_char B"
  proof -
    let ?t = "CHR ''@'' # B @ '' hello''"
    have nb: "CHR ''`'' \<notin> set B" and na: "CHR ''@'' \<notin> set B"
      using b(2) by (auto simp: list_all_iff simple_char_def)
    then have nbt: "CHR ''`'' \<notin> set ?t"
      by simp
    have r: "'' hello'' = [] \<or> \<not> simple_char (hd '' hello'')"
      by (simp add: simple_char_def is_space_def)
    have "exec_all simple_regex None ?t = [[(1, B)]]"
      using exec_all_simple_at [OF b r, of None] by (simp add: exec_all_simple_no_at)
    then have e: "extractFileReferences ?t = [B]"
      using nbt by (simp add: extractFileReferences_def exec_all_backtick_no_backtick add_simple_def
                              match_group_def set_add_def)
    have c: "replace_all backtick_mention [] None ?t = ?t"
      using nbt by (rule replace_all_backtick_mention_no_backtick)
    have i: "\<not> includes_str ?t (''@`'' @ B @ ''`'')"
      using nbt includes_str_set [of ?t "''@`'' @ B @ ''`''"] by auto
    have "boundary '' hello''"
      by (simp add: boundary_def is_space_def)
    then have "first_match (ref_regex B) (None, ?t, []) = Some (prev_after (Some CHR ''@'') B, '' hello'', [])"
      by (simp add: first_match_ref_regex)
    from replace_all_Some [OF this, of "[]"]
    have m: "replace_all (ref_regex B) [] None ?t = '' hello''"
      by (simp add: replace_all_ref_regex_no_at)
    have rr: "remove_ref ?t ?t B = '' hello''"
      unfolding remove_ref_def by (subst if_not_P [OF i]) (rule m)
    have s1: "sort_key (\<lambda>ref. - int (length ref)) [B] = [B]"
      by simp
    have tc: "trim (collapse_ws '' hello'') = ''hello''"
      by (simp add: trim_def is_space_def)
    show ?thesis
      unfolding removeFileReferences_def Let_def e c s1
      by (simp only: foldl.simps rr replace_all_spaces tc)
  qed
  have spec': "(\<forall>ref \<in> set (extractFileReferences text). \<not> includes_str text (''@`'' @ ref @ ''`''))
        \<longrightarrow> removeFileReferences text = removeFileReferences_spec text"
    using spec by blast
  have ex': "B \<noteq> [] \<and> list_all simple_char B \<longrightarrow> removeFileReferences (CHR ''@'' # B @ '' hello'') = ''hello''"
    using ex by blast
  have fl: "foldl (remove_ref text) c refs
            = foldl (\<lambda>cleaned ref. replace_all (ref_regex ref) [] None cleaned) c
                (filter (\<lambda>ref. \<not> includes_str text (''@`'' @ ref @ ''`'')) refs)" for c refs
    by (induction refs arbitrary: c) (simp_all add: remove_ref_def)
  have flt: "removeFileReferences text
       = trim (collapse_ws
           (foldl (\<lambda>cleaned ref. replace_all (ref_regex ref) [] None cleaned)
              (replace_all backtick_mention [] None text)
              (filter (\<lambda>ref. \<not> includes_str text (''@`'' @ ref @ ''`''))
                 (sort_key (\<lambda>ref. - int (length ref)) (extractFileReferences text)))))"
    by (simp only: eq fl)
  have bm: "span \<noteq> [] \<and> CHR ''`'' \<notin> set span \<longrightarrow>
        replace_all backtick_mention [] pv (CHR ''@'' # CHR ''`'' # span @ CHR ''`'' # rest)
          = replace_all backtick_mention [] (Some CHR ''`'') rest"
  proof
    assume h: "span \<noteq> [] \<and> CHR ''`'' \<notin> set span"
    have a: "list_all not_backtick span"
      using h by (auto simp: list_all_iff not_backtick_def)
    have b: "CHR ''`'' # rest = [] \<or> \<not> not_backtick (hd (CHR ''`'' # rest))"
      by (simp add: not_backtick_def)
    have "hd (span @ CHR ''`'' # rest) \<noteq> CHR ''`''"
      using h by (cases span) auto
    then have "first_match backtick_mention (pv, CHR ''@'' # CHR ''`'' # span @ CHR ''`'' # rest, [])
                 = Some (Some CHR ''`'', rest, [])"
      using h
      by (simp add: first_match_backtick_mention takeWhile_run [OF a b] dropWhile_run [OF a b]
               del: dropWhile_eq_Nil_conv)
    from replace_all_Some [OF this, of "[]"]
    show "replace_all backtick_mention [] pv (CHR ''@'' # CHR ''`'' # span @ CHR ''`'' # rest)
          = replace_all backtick_mention [] (Some CHR ''`'') rest"
      by simp
  qed
  have bs: "\<not> (x = CHR ''@'' \<and> (\<exists>sp r. xs = CHR ''`'' # sp @ CHR ''`'' # r \<and> sp \<noteq> [] \<and> CHR ''`'' \<notin> set sp)) \<longrightarrow>
        replace_all backtick_mention [] pv (x # xs) = x # replace_all backtick_mention [] (Some x) xs"
  proof
    assume n: "\<not> (x = CHR ''@'' \<and> (\<exists>sp r. xs = CHR ''`'' # sp @ CHR ''`'' # r \<and> sp \<noteq> [] \<and> CHR ''`'' \<notin> set sp))"
    have "first_match backtick_mention (pv, x # xs, []) = None"
    proof (rule ccontr)
      assume "first_match backtick_mention (pv, x # xs, []) \<noteq> None"
      then obtain b t where xs: "xs = b # t" and
        c: "x = CHR ''@''" "b = CHR ''`''" "t \<noteq> []" "hd t \<noteq> CHR ''`''" "dropWhile not_backtick t \<noteq> []"
        by (auto simp: first_match_backtick_mention split: list.splits if_splits)
      let ?span = "takeWhile not_backtick t"
      let ?rest = "tl (dropWhile not_backtick t)"
      have "dropWhile not_backtick t = CHR ''`'' # ?rest"
        using c(5) hd_dropWhile_not_backtick [OF c(5)] by (cases "dropWhile not_backtick t") simp_all
      then have "t = ?span @ CHR ''`'' # ?rest"
        using takeWhile_dropWhile_id [of not_backtick t] by simp
      moreover have "?span \<noteq> []"
        using c(3,4) by (cases t) (simp_all add: not_backtick_def)
      moreover have "CHR ''`'' \<notin> set ?span"
        by (auto dest: set_takeWhileD simp: not_backtick_def)
      ultimately have "\<exists>sp r. xs = CHR ''`'' # sp @ CHR ''`'' # r \<and> sp \<noteq> [] \<and> CHR ''`'' \<notin> set sp"
        using xs c(2) by blast
      with n c(1) show False
        by blast
    qed
    then show "replace_all backtick_mention [] pv (x # xs) = x # replace_all backtick_mention [] (Some x) xs"
      by (simp add: replace_all_None)
  qed
  show ?thesis
    by (rule conjI, rule eq, rule conjI, rule srt, rule conjI, rule guard, rule conjI, rule bnd,
        rule conjI, rule trimmed, rule conjI, rule single, rule conjI, rule sp, rule conjI,
        rule spec', rule conjI, rule ex', rule conjI, rule flt, rule conjI, rule bm, rule bs)
qed

theorem removeFileReferences_amended_witness:
  "removeFileReferences ''  see @notes2,   and @notes.  ok '' = ''see , and . ok''
   \<and> removeFileReferences_spec ''  see @notes2,   and @notes.  ok '' = ''see , and . ok''
   \<and> removeFileReferences (CHR ''@'' # ''notes2'' @ '' hello'') = ''hello''
   \<and> removeFileReferences ''@notes @notes2 hello'' = ''hello''
   \<and> single_spaced (removeFileReferences ''  see @notes2,   and @notes.  ok '')
   \<and> extractFileReferences ''  see @notes2,   and @notes.  ok '' = [''notes2'', ''notes'']
   \<and> removeFileReferences ''see @`my file` and @notes2, then @my.'' = ''see and , then .''
   \<and> replace_all backtick_mention [] None (CHR ''@'' # CHR ''`'' # ''my file'' @ CHR ''`'' # '' and'')
       = '' and''
   \<and> replace_all backtick_mention [] None (CHR ''@'' # ''`my file'') = ''@`my file''"
proof -
  let ?t = "''  see @notes2,   and @notes.  ok ''"
  let ?u = "''see @`my file` and @notes2, then @my.''"
  have e: "extractFileReferences ?t = [''notes2'', ''notes'']"
    by code_simp
  have n: "\<forall>ref \<in> set (extractFileReferences ?t). \<not> includes_str ?t (''@`'' @ ref @ ''`'')"
    unfolding e by simp
  have s: "removeFileReferences_spec ?t = ''see , and . ok''"
    by code_simp
  have b: "''notes2'' \<noteq> [] \<and> list_all simple_char ''notes2''"
    by (simp add: simple_char_def is_space_def)
  have p: "removeFileReferences ''@notes @notes2 hello'' = ''hello''"
    by code_simp
  note T = removeFileReferences_amended [of ?t _ _ _ _ "''notes2''"]
  have q: "removeFileReferences ?t = removeFileReferences_spec ?t"
    using T [THEN conjunct2, THEN conjunct2, THEN conjunct2, THEN conjunct2, THEN conjunct2,
             THEN conjunct2, THEN conjunct2, THEN conjunct1] n
    by (rule mp)
  have ss: "single_spaced (removeFileReferences ?t)"
    by (rule T [THEN conjunct2, THEN conjunct2, THEN conjunct2, THEN conjunct2, THEN conjunct2,
                THEN conjunct1])
  have ex: "removeFileReferences (CHR ''@'' # ''notes2'' @ '' hello'') = ''hello''"
    using T [THEN conjunct2, THEN conjunct2, THEN conjunct2, THEN conjunct2, THEN conjunct2,
             THEN conjunct2, THEN conjunct2, THEN conjunct2, THEN conjunct1] b
    by (rule mp)
  note U = removeFileReferences_amended [of ?u]
  have "removeFileReferences ?u
       = trim (collapse_ws
           (foldl (\<lambda>cleaned ref. replace_all (ref_regex ref) [] None cleaned)
              (replace_all backtick_mention [] None ?u)
              (filter (\<lambda>ref. \<not> includes_str ?u (''@`'' @ ref @ ''`''))
                 (sort_key (\<lambda>ref. - int (length ref)) (extractFileReferences ?u)))))"
    by (rule U [THEN conjunct2, THEN conjunct2, THEN conjunct2, THEN conjunct2, THEN conjunct2,
                THEN conjunct2, THEN conjunct2, THEN conjunct2, THEN conjunct2, THEN conjunct1])
  also have "\<dots> = ''see and , then .''"
    by code_simp
  finally have u: "removeFileReferences ?u = ''see and , then .''" .
  have hm: "''my file'' \<noteq> [] \<and> CHR ''`'' \<notin> set ''my file''"
    by simp
  have "replace_all backtick_mention [] None (CHR ''@'' # CHR ''`'' # ''my file'' @ CHR ''`'' # '' and'')
          = replace_all backtick_mention [] (Some CHR ''`'') '' and''"
    using removeFileReferences_amended [of _ _ _ _ _ _ "''my file''" "'' and''",
            THEN conjunct2, THEN conjunct2, THEN conjunct2, THEN conjunct2, THEN conjunct2,
            THEN conjunct2, THEN conjunct2, THEN conjunct2, THEN conjunct2, THEN conjunct2,
            THEN conjunct1] hm
    by (rule mp)
  also have "\<dots> = '' and''"
    by code_simp
  finally have m: "replace_all backtick_mention [] None
                     (CHR ''@'' # CHR ''`'' # ''my file'' @ CHR ''`'' # '' and'') = '' and''" .
  have hs: "\<not> (CHR ''@'' = CHR ''@''
              \<and> (\<exists>sp r. ''`my file'' = CHR ''`'' # sp @ CHR ''`'' # r \<and> sp \<noteq> [] \<and> CHR ''`'' \<notin> set sp))"
  proof
    assume "CHR ''@'' = CHR ''@''
              \<and> (\<exists>sp r. ''`my file'' = CHR ''`'' # sp @ CHR ''`'' # r \<and> sp \<noteq> [] \<and> CHR ''`'' \<notin> set sp)"
    then obtain sp r where "''my file'' = sp @ CHR ''`'' # r"
      by auto
    then have "CHR ''`'' \<in> set ''my file''"
      by (metis in_set_conv_decomp)
    then show False
      by simp
  qed
  have "replace_all backtick_mention [] None (CHR ''@'' # ''`my file'')
          = CHR ''@'' # replace_all backtick_mention [] (Some CHR ''@'') ''`my file''"
    using removeFileReferences_amended [of _ _ _ _ _ _ _ _ "CHR ''@''" "''`my file''",
            THEN conjunct2, THEN conjunct2, THEN conjunct2, THEN conjunct2, THEN conjunct2,
            THEN conjunct2, THEN conjunct2, THEN conjunct2, THEN conjunct2, THEN conjunct2,
            THEN conjunct2] hs
    by (rule mp)
  also have "\<dots> = ''@`my file''"
    by code_simp
  finally have k: "replace_all backtick_mention [] None (CHR ''@'' # ''`my file'') = ''@`my file''" .
  have q': "removeFileReferences ?t = ''see , and . ok''"
    by (simp only: q s)
  show ?thesis
    by (rule conjI, rule q', rule conjI, rule s, rule conjI, rule ex, rule conjI, rule p,
        rule conjI, rule ss, rule conjI, rule e, rule conjI, rule u, rule conjI, rule m, rule k)
qed

subsection \<open>C9: the keyword summary\<close>





end
